theory Spec2Isabelle
  imports Main "HOL-Library.Sublist"
begin

section \<open>Shared types\<close>

text \<open>Go's \<open>error\<close> values are opaque to the code verified here; \<open>nil\<close> is \<open>None\<close>.\<close>

datatype error = Error string

text \<open>
  \<open>map[string]int\<close>: a Go map from process type to desired count. Reading a missing key
  yields the zero value, which \<open>cnt\<close> writes out. Go's \<open>int\<close> is modelled as \<open>int\<close>:
  every arithmetic step of \<open>oneByOne\<close> stays between 0 and a count already stored in
  the map, so no operation wraps.
\<close>

type_synonym processes = "string \<Rightarrow> int option"

definition cnt :: "processes \<Rightarrow> string \<Rightarrow> int" where
  "cnt m k = (case m k of None \<Rightarrow> 0 | Some n \<Rightarrow> n)"

text \<open>\<open>ct.Formation\<close>, with the three fields \<open>oneByOne\<close> fills in.\<close>

record formation =
  fAppID :: string
  fReleaseID :: string
  Processes :: processes

text \<open>
  \<open>ct.Deployment\<close>; \<open>oneByOne\<close> reads the same three fields \<open>AppID\<close>, \<open>OldReleaseID\<close>
  and \<open>NewReleaseID\<close> of a \<open>deployer.Deployment\<close>, which is modelled by the same record.
  Timestamps are opaque numbers; \<open>FinishedAt\<close> is a nullable pointer.
\<close>

record deployment =
  ID :: string
  AppID :: string
  OldReleaseID :: string
  NewReleaseID :: string
  Strategy :: string
  CreatedAt :: int
  FinishedAt :: "int option"

text \<open>\<open>ct.DeploymentEvent\<close> as \<open>scanDeploymentEvent\<close> fills it; also what the \<open>events\<close>
  channel of a strategy carries.\<close>

record deploymentEvent =
  eID :: int
  eDeploymentID :: string
  eReleaseID :: string
  JobType :: string
  JobState :: string
  Status :: string
  eCreatedAt :: int

text \<open>\<open>jobEvents\<close> is \<open>map[string]map[string]int\<close>; the literal \<open>jobEvents{typ: {"up": 1}}\<close>
  is the association list \<open>[(typ, [(''up'', 1)])]\<close>.\<close>

type_synonym jobEvents = "(string \<times> (string \<times> int) list) list"

section \<open>The one-at-a-time strategy (deployer/strategies/one-by-one.go)\<close>

text \<open>
  The controller client and the job-event matcher are outside the function: they are a
  parameter, a record of operations on a state \<open>'w\<close> of the outside world (the formation
  store, the job stream). Each operation returns Go's \<open>error\<close> and the world it leaves.
\<close>

record 'w client =
  StreamJobEvents :: "'w \<Rightarrow> string \<Rightarrow> int \<Rightarrow> error option \<times> 'w"
  streamClose :: "'w \<Rightarrow> 'w"
  GetFormation :: "'w \<Rightarrow> string \<Rightarrow> string \<Rightarrow> error + formation"
  PutFormation :: "'w \<Rightarrow> formation \<Rightarrow> error option \<times> 'w"
  waitForJobEvents :: "'w \<Rightarrow> jobEvents \<Rightarrow> error option \<times> 'w"

text \<open>The calls \<open>oneByOne\<close> makes inside its loops, as they are logged below.\<close>

datatype call = Put formation | Wait jobEvents

text \<open>
  The variables of a running \<open>oneByOne\<close>: the two maps, the outside world, what has been
  sent on the \<open>events\<close> channel, and (an observation of the run, not a variable of the
  source) the calls made so far with the error each returned.
\<close>

record 'w frame =
  world :: 'w
  newFormation :: processes
  oldFormation :: processes
  sent :: "deploymentEvent list"
  calls :: "(call \<times> error option) list"

text \<open>\<open>if err != nil { return err }\<close> between two steps.\<close>

definition andThen ::
  "error option \<times> 's \<Rightarrow> ('s \<Rightarrow> error option \<times> 's) \<Rightarrow> error option \<times> 's" where
  "andThen r k = (case r of (Some e, s) \<Rightarrow> (Some e, s) | (None, s) \<Rightarrow> k s)"

definition doPut :: "'w client \<Rightarrow> formation \<Rightarrow> 'w frame \<Rightarrow> error option \<times> 'w frame" where
  "doPut c f s =
     (case PutFormation c (world s) f of
        (r, w) \<Rightarrow> (r, s\<lparr>world := w, calls := calls s @ [(Put f, r)]\<rparr>))"

definition doWait :: "'w client \<Rightarrow> jobEvents \<Rightarrow> 'w frame \<Rightarrow> error option \<times> 'w frame" where
  "doWait c je s =
     (case waitForJobEvents c (world s) je of
        (r, w) \<Rightarrow> (r, s\<lparr>world := w, calls := calls s @ [(Wait je, r)]\<rparr>))"

text \<open>\<open>newFormation[typ]++\<close> and \<open>oldFormation[typ]--\<close>.\<close>

definition incr :: "processes \<Rightarrow> string \<Rightarrow> processes" where
  "incr m typ = m(typ \<mapsto> cnt m typ + 1)"

definition decr :: "processes \<Rightarrow> string \<Rightarrow> processes" where
  "decr m typ = m(typ \<mapsto> cnt m typ - 1)"

text \<open>One pass through the body of the inner loop (lines 27 to 50).\<close>

definition startOne :: "'w client \<Rightarrow> deployment \<Rightarrow> string \<Rightarrow> 'w frame \<Rightarrow> error option \<times> 'w frame" where
  "startOne c d typ s =
     (let s1 = s\<lparr>newFormation := incr (newFormation s) typ\<rparr> in
      andThen
        (doPut c \<lparr>fAppID = AppID d, fReleaseID = NewReleaseID d, Processes = newFormation s1\<rparr> s1)
        (doWait c [(typ, [(''up'', 1)])]))"

definition stopOne :: "'w client \<Rightarrow> deployment \<Rightarrow> string \<Rightarrow> 'w frame \<Rightarrow> error option \<times> 'w frame" where
  "stopOne c d typ s =
     (let s1 = s\<lparr>oldFormation := decr (oldFormation s) typ\<rparr> in
      andThen
        (doPut c \<lparr>fAppID = AppID d, fReleaseID = OldReleaseID d, Processes = oldFormation s1\<rparr> s1)
        (doWait c [(typ, [(''down'', 1)])]))"

definition swapOne :: "'w client \<Rightarrow> deployment \<Rightarrow> string \<Rightarrow> 'w frame \<Rightarrow> error option \<times> 'w frame" where
  "swapOne c d typ s = andThen (startOne c d typ s) (stopOne c d typ)"

text \<open>\<open>for i := 0; i < num; i++\<close>, entered with the loop variable at \<open>i\<close>.\<close>

function unitLoop ::
  "'w client \<Rightarrow> deployment \<Rightarrow> string \<Rightarrow> int \<Rightarrow> int \<Rightarrow> 'w frame \<Rightarrow> error option \<times> 'w frame" where
  "unitLoop c d typ num i s =
     (if i < num then andThen (swapOne c d typ s) (unitLoop c d typ num (i + 1))
      else (None, s))"
  by pat_completeness auto
termination
  by (relation "measure (\<lambda>(c, d, typ, num, i, s). nat (num - i))") auto

declare unitLoop.simps [simp del]

text \<open>
  \<open>for typ, num := range f.Processes\<close>. Go does not specify the order in which \<open>range\<close>
  yields the keys of a map, and varies it from run to run; the order of this run is the
  list the loop is given. \<open>oldFormation\<close> is the map \<open>f.Processes\<close> itself (line 22 copies
  the reference), so \<open>num\<close> is read from \<open>oldFormation\<close> when the key is reached.
\<close>

fun typeLoop ::
  "'w client \<Rightarrow> deployment \<Rightarrow> string list \<Rightarrow> 'w frame \<Rightarrow> error option \<times> 'w frame" where
  "typeLoop c d [] s = (None, s)"
| "typeLoop c d (typ # rest) s =
     andThen (unitLoop c d typ (cnt (oldFormation s) typ) 0 s) (typeLoop c d rest)"

text \<open>What \<open>range\<close> may yield for a map: every key once.\<close>

definition rangeOrder :: "string list \<Rightarrow> processes \<Rightarrow> bool" where
  "rangeOrder order m \<longleftrightarrow> distinct order \<and> set order = dom m"

text \<open>The frame when the loops are entered: line 22 and line 23.\<close>

definition entry :: "'w \<Rightarrow> processes \<Rightarrow> deploymentEvent list \<Rightarrow> 'w frame" where
  "entry w old events =
     \<lparr>world = w, newFormation = Map.empty, oldFormation = old, sent = events, calls = []\<rparr>"

text \<open>
  \<open>oneByOne\<close>. The result is the returned \<open>error\<close> and the frame at the return; the deferred
  \<open>stream.Close()\<close> runs on every return after the stream was opened. The function never
  sends on \<open>events\<close>: \<open>sent\<close> is carried through unchanged.
\<close>

definition oneByOne ::
  "'w client \<Rightarrow> string list \<Rightarrow> deployment \<Rightarrow> deploymentEvent list \<Rightarrow> 'w \<Rightarrow> error option \<times> 'w frame" where
  "oneByOne c order d events w =
     (case StreamJobEvents c w (AppID d) 0 of
        (Some e, w1) \<Rightarrow> (Some e, entry w1 Map.empty events)
      | (None, w1) \<Rightarrow>
          (case GetFormation c w1 (AppID d) (OldReleaseID d) of
             Inl e \<Rightarrow> (Some e, entry (streamClose c w1) Map.empty events)
           | Inr f \<Rightarrow>
               (case typeLoop c d order (entry w1 (Processes f) events) of
                  (r, s) \<Rightarrow> (r, s\<lparr>world := streamClose c (world s)\<rparr>))))"

subsection \<open>The calls of a run, described\<close>

text \<open>A call that returned no error, as it is logged.\<close>

definition ok :: "call \<Rightarrow> call \<times> error option" where
  "ok c = (c, None)"

text \<open>
  The four calls that swap the \<open>k\<close>-th unit of type \<open>typ\<close>, \<open>new\<close> and \<open>old\<close> being the two
  maps when the swap of \<open>typ\<close> began: the new release is written with \<open>k\<close> more of \<open>typ\<close>,
  one \<open>up\<close> of \<open>typ\<close> is awaited, the old release is written with \<open>k\<close> fewer, one \<open>down\<close>
  of \<open>typ\<close> is awaited.
\<close>

definition unitCalls :: "deployment \<Rightarrow> string \<Rightarrow> processes \<Rightarrow> processes \<Rightarrow> int \<Rightarrow> call list" where
  "unitCalls d typ new old k =
     [Put \<lparr>fAppID = AppID d, fReleaseID = NewReleaseID d, Processes = new(typ \<mapsto> cnt new typ + k)\<rparr>,
      Wait [(typ, [(''up'', 1)])],
      Put \<lparr>fAppID = AppID d, fReleaseID = OldReleaseID d, Processes = old(typ \<mapsto> cnt old typ - k)\<rparr>,
      Wait [(typ, [(''down'', 1)])]]"

text \<open>A map after \<open>n\<close> units of \<open>typ\<close> were added (\<open>dir = 1\<close>) or removed (\<open>dir = - 1\<close>).\<close>

definition bump :: "processes \<Rightarrow> string \<Rightarrow> int \<Rightarrow> int \<Rightarrow> processes" where
  "bump m typ dir n = (if n \<le> 0 then m else m(typ \<mapsto> cnt m typ + dir * n))"

text \<open>The calls of a run that meets no error, for a visiting order, and the maps it ends with.\<close>

fun plan :: "deployment \<Rightarrow> string list \<Rightarrow> processes \<Rightarrow> processes \<Rightarrow> call list" where
  "plan d [] new old = []"
| "plan d (typ # rest) new old =
     concat (map (unitCalls d typ new old) [1..cnt old typ]) @
     plan d rest (bump new typ 1 (cnt old typ)) (bump old typ (- 1) (cnt old typ))"

fun planEnd :: "string list \<Rightarrow> processes \<times> processes \<Rightarrow> processes \<times> processes" where
  "planEnd [] st = st"
| "planEnd (typ # rest) (new, old) =
     planEnd rest (bump new typ 1 (cnt old typ), bump old typ (- 1) (cnt old typ))"

text \<open>The formations sent to \<open>PutFormation\<close>, in the order of the calls.\<close>

definition mutations :: "(call \<times> error option) list \<Rightarrow> formation list" where
  "mutations cs = concat (map (\<lambda>x. case fst x of Put f \<Rightarrow> [f] | Wait je \<Rightarrow> []) cs)"

text \<open>The job-event expectations waited for, in the order of the calls.\<close>

definition waits :: "(call \<times> error option) list \<Rightarrow> jobEvents list" where
  "waits cs = concat (map (\<lambda>x. case fst x of Put f \<Rightarrow> [] | Wait je \<Rightarrow> [je]) cs)"

text \<open>The world after a list of calls was made on it, one after the other.\<close>

fun perform :: "'w client \<Rightarrow> call \<Rightarrow> 'w \<Rightarrow> error option \<times> 'w" where
  "perform c (Put f) w = PutFormation c w f"
| "perform c (Wait je) w = waitForJobEvents c w je"

fun replay :: "'w client \<Rightarrow> 'w \<Rightarrow> call list \<Rightarrow> 'w" where
  "replay c w [] = w"
| "replay c w (x # xs) = replay c (snd (perform c x w)) xs"

text \<open>A log agrees with the client: each call, made in turn from \<open>w\<close>, returns the logged error.\<close>

fun consistent :: "'w client \<Rightarrow> 'w \<Rightarrow> (call \<times> error option) list \<Rightarrow> bool" where
  "consistent c w [] \<longleftrightarrow> True"
| "consistent c w (x # xs) \<longleftrightarrow>
     fst (perform c (fst x) w) = snd x \<and> consistent c (snd (perform c (fst x) w)) xs"

definition tracked :: "'w client \<Rightarrow> 'w \<Rightarrow> 'w frame \<Rightarrow> bool" where
  "tracked c w0 s \<longleftrightarrow>
     world s = replay c w0 (map fst (calls s)) \<and> consistent c w0 (calls s)"


subsection \<open>What a run writes\<close>

text \<open>
  The desired counts the controller holds for the new and the old release, as a pair:
  a \<open>PutFormation\<close> that returned no error overwrites the whole formation of the release
  it names; a wait, or a \<open>PutFormation\<close> that returned an error, leaves both as they were.
\<close>

definition written ::
  "deployment \<Rightarrow> processes \<times> processes \<Rightarrow> call \<times> error option \<Rightarrow> processes \<times> processes" where
  "written d st x =
     (case x of
        (Put f, None) \<Rightarrow>
          if fReleaseID f = NewReleaseID d then (Processes f, snd st) else (fst st, Processes f)
      | (Put f, Some e) \<Rightarrow> st
      | (Wait je, r) \<Rightarrow> st)"

definition stored ::
  "deployment \<Rightarrow> processes \<times> processes \<Rightarrow> (call \<times> error option) list \<Rightarrow> processes \<times> processes" where
  "stored d st cs = foldl (written d) st cs"

text \<open>
  The capacity bound for a pair of formations, \<open>N t\<close> being the count of type \<open>t\<close> before
  the deployment: for every type the two counts add up to \<open>N t\<close> or \<open>N t + 1\<close>, and at
  most one type is at \<open>N t + 1\<close> (one replacement unit in flight).
\<close>

definition excess :: "(string \<Rightarrow> int) \<Rightarrow> processes \<times> processes \<Rightarrow> string \<Rightarrow> int" where
  "excess N st t = cnt (fst st) t + cnt (snd st) t - N t"

definition balanced :: "(string \<Rightarrow> int) \<Rightarrow> processes \<times> processes \<Rightarrow> bool" where
  "balanced N st \<longleftrightarrow>
     (\<forall>t. excess N st t = 0 \<or> excess N st t = 1) \<and>
     (\<forall>t t'. excess N st t = 1 \<and> excess N st t' = 1 \<longrightarrow> t = t')"

text \<open>Between two units every type is at its count \<open>N t\<close>.\<close>

definition level :: "(string \<Rightarrow> int) \<Rightarrow> processes \<times> processes \<Rightarrow> bool" where
  "level N st \<longleftrightarrow> (\<forall>t. excess N st t = 0)"

subsection \<open>A controller to run the strategy against\<close>

text \<open>\<open>ct.JobEvent\<close>, the fields the spec lists.\<close>

record jobEvent =
  jAppID :: string
  jReleaseID :: string
  jType :: string
  jState :: string
  jJobID :: string

definition remaining :: "jobEvents \<Rightarrow> string \<Rightarrow> string \<Rightarrow> int" where
  "remaining je typ st =
     (case map_of je typ of
        None \<Rightarrow> 0
      | Some m \<Rightarrow> (case map_of m st of None \<Rightarrow> 0 | Some n \<Rightarrow> n))"

definition satisfied :: "jobEvents \<Rightarrow> bool" where
  "satisfied je \<longleftrightarrow> list_all (\<lambda>(typ, m). list_all (\<lambda>(st, n). n = 0) m) je"

definition decrement :: "jobEvents \<Rightarrow> string \<Rightarrow> string \<Rightarrow> jobEvents" where
  "decrement je typ st =
     map (\<lambda>(t, m). if t = typ then (t, map (\<lambda>(s, n). if s = st then (s, n - 1) else (s, n)) m)
                    else (t, m)) je"

text \<open>
  Modelled from the spec: \<open>waitForJobEvents\<close> is called by \<open>oneByOne\<close> but its body is
  not among the sources. Section 4.2 of the spec describes it: the wait succeeds once every
  entry of the expected set is zero; it consumes events one at a time; a \<open>crashed\<close> event of
  any type fails the wait at once; an event whose (type, state) still has a remaining
  count decrements it, any other event is ignored; a stream that closes before the
  expectations are met fails the wait. The job stream is the list of events still to
  arrive, its end being the close of the channel.
\<close>

fun specWaitForJobEvents :: "jobEvent list \<Rightarrow> jobEvents \<Rightarrow> error option \<times> jobEvent list" where
  "specWaitForJobEvents [] je =
     (if satisfied je then (None, []) else (Some (Error ''job event stream closed''), []))"
| "specWaitForJobEvents (ev # rest) je =
     (if satisfied je then (None, ev # rest)
      else if jState ev = ''crashed'' then (Some (Error ''job crashed''), rest)
      else if 0 < remaining je (jType ev) (jState ev)
        then specWaitForJobEvents rest (decrement je (jType ev) (jState ev))
      else specWaitForJobEvents rest je)"

text \<open>
  A controller for the examples: a formation store keyed by app and release, the job
  events that will arrive, and the errors the successive \<open>PutFormation\<close> calls return
  (\<open>None\<close>, or the end of the list, is success; a failed call stores nothing).
\<close>

record sim =
  formations :: "string \<times> string \<Rightarrow> processes option"
  jobStream :: "jobEvent list"
  putErrors :: "error option list"

definition simPut :: "sim \<Rightarrow> formation \<Rightarrow> error option \<times> sim" where
  "simPut w f =
     (case putErrors w of
        Some e # es \<Rightarrow> (Some e, w\<lparr>putErrors := es\<rparr>)
      | None # es \<Rightarrow>
          (None, w\<lparr>formations := (formations w)((fAppID f, fReleaseID f) \<mapsto> Processes f),
                   putErrors := es\<rparr>)
      | [] \<Rightarrow>
          (None, w\<lparr>formations := (formations w)((fAppID f, fReleaseID f) \<mapsto> Processes f)\<rparr>))"

definition simGet :: "sim \<Rightarrow> string \<Rightarrow> string \<Rightarrow> error + formation" where
  "simGet w app rel =
     (case formations w (app, rel) of
        None \<Rightarrow> Inl (Error ''not found'')
      | Some p \<Rightarrow> Inr \<lparr>fAppID = app, fReleaseID = rel, Processes = p\<rparr>)"

definition simWait :: "sim \<Rightarrow> jobEvents \<Rightarrow> error option \<times> sim" where
  "simWait w je =
     (case specWaitForJobEvents (jobStream w) je of (r, rest) \<Rightarrow> (r, w\<lparr>jobStream := rest\<rparr>))"

definition simClient :: "sim client" where
  "simClient =
     \<lparr>StreamJobEvents = (\<lambda>w app since. (None, w)),
      streamClose = (\<lambda>w. w),
      GetFormation = simGet,
      PutFormation = simPut,
      waitForJobEvents = simWait\<rparr>"

definition jobEv :: "string \<Rightarrow> string \<Rightarrow> jobEvent" where
  "jobEv typ st = \<lparr>jAppID = ''app'', jReleaseID = '''', jType = typ, jState = st, jJobID = ''''\<rparr>"

definition dep :: deployment where
  "dep = \<lparr>ID = ''d1'', AppID = ''app'', OldReleaseID = ''R1'', NewReleaseID = ''R2'',
          Strategy = ''one-by-one'', CreatedAt = 0, FinishedAt = None\<rparr>"

text \<open>The app of the end-to-end example: release R1 runs three \<open>web\<close> processes.\<close>

definition web3 :: sim where
  "web3 =
     \<lparr>formations = [(''app'', ''R1'') \<mapsto> [''web'' \<mapsto> 3]],
      jobStream = [jobEv ''web'' ''up'', jobEv ''web'' ''down'', jobEv ''web'' ''up'',
                   jobEv ''web'' ''down'', jobEv ''web'' ''up'', jobEv ''web'' ''down''],
      putErrors = []\<rparr>"

text \<open>An app with one \<open>web\<close> and one \<open>worker\<close> process; the job events let the
  strategy succeed whichever type it visits first.\<close>

definition twoTypes :: sim where
  "twoTypes =
     \<lparr>formations = [(''app'', ''R1'') \<mapsto> [''web'' \<mapsto> 1, ''worker'' \<mapsto> 1]],
      jobStream = [jobEv ''web'' ''up'', jobEv ''worker'' ''up'', jobEv ''web'' ''down'',
                   jobEv ''worker'' ''down'', jobEv ''web'' ''up'', jobEv ''worker'' ''up'',
                   jobEv ''web'' ''down'', jobEv ''worker'' ''down''],
      putErrors = []\<rparr>"

text \<open>The end-to-end example again, with the second \<open>PutFormation\<close> failing.\<close>

definition web3Failing :: sim where
  "web3Failing = web3\<lparr>putErrors := [None, Some (Error ''put failed'')]\<rparr>"

section \<open>The deployment repository (controller/deployment.go)\<close>

subsection \<open>The database and the packages the file uses\<close>

text \<open>
  \<open>postgres.CleanUUID\<close> and \<open>random.UUID\<close> are called here and defined elsewhere: they
  are parameters. \<open>UUID\<close> is the identifier \<open>random.UUID()\<close> returns to the call at hand.
\<close>

record pkg =
  CleanUUID :: "string \<Rightarrow> string"
  UUID :: string

text \<open>
  \<open>sql.ErrNoRows\<close> and the controller's \<open>ErrNotFound\<close>: two errors, compared by
  identity in the source; the text of the second is not in the sources.
\<close>

definition ErrNoRows :: error where
  "ErrNoRows = Error ''sql: no rows in result set''"

definition ErrNotFound :: error where
  "ErrNotFound = Error ''controller: resource not found''"

text \<open>
  The database as the queries of this file see it. A table is the list of its rows in
  the order in which a scan yields them: a \<open>SELECT\<close> without \<open>ORDER BY\<close> returns the rows
  it selects in that order, which SQL leaves to the database. The uuid columns hold the
  text Postgres returns for them; Postgres compares uuids, not texts, and \<open>sameUUID\<close>
  says which texts denote the same uuid. \<open>queryError\<close> is the error, if any, with which
  the database answers a statement (a lost connection, a violated constraint);
  \<open>scanFails\<close> the error, if any, with which \<open>Scan\<close> fails on a row; \<open>now\<close> is the
  server's clock, the default of \<open>created_at\<close>. A cursor delivers every row it selected.
\<close>

record db =
  deployments :: "deployment list"
  deployment_events :: "deploymentEvent list"
  sameUUID :: "string \<Rightarrow> string \<Rightarrow> bool"
  queryError :: "error option"
  scanFails :: "deploymentEvent \<Rightarrow> error option"
  now :: int

text \<open>
  The work queue behind \<open>que.Client\<close>: the jobs enqueued, and the error, if any, with which
  \<open>Enqueue\<close> fails. \<open>Args\<close> is the JSON of a \<open>ct.DeployID\<close>, kept as the identifier it wraps.
\<close>

datatype json = DeployID string

record job =
  Type :: string
  Args :: json

record que =
  que_jobs :: "job list"
  enqueueError :: "error option"

text \<open>\<open>DeploymentRepo\<close>: the two handles, with the state behind them.\<close>

record DeploymentRepo =
  repo_db :: db
  repo_q :: que

subsection \<open>Add\<close>

text \<open>The \<open>interface{}\<close> argument of \<open>Add\<close>: a \<open>*ct.Deployment\<close>, or any other value.\<close>

datatype iface = DeploymentPtr deployment | OtherValue

text \<open>
  \<open>INSERT INTO deployments (...) VALUES ($1, ..., $5) RETURNING created_at\<close>, run outside
  any transaction: the row is stored with the server's time and an empty \<open>finished_at\<close>,
  and the time is returned, unless the database answers with an error.
\<close>

definition insertDeployment :: "db \<Rightarrow> deployment \<Rightarrow> (error + int) \<times> db" where
  "insertDeployment b x =
     (case queryError b of
        Some e \<Rightarrow> (Inl e, b)
      | None \<Rightarrow>
          (Inr (now b),
           b\<lparr>deployments := deployments b @ [x\<lparr>CreatedAt := now b, FinishedAt := None\<rparr>]\<rparr>))"

definition Enqueue :: "que \<Rightarrow> job \<Rightarrow> error option \<times> que" where
  "Enqueue qu j =
     (case enqueueError qu of
        Some e \<Rightarrow> (Some e, qu)
      | None \<Rightarrow> (None, qu\<lparr>que_jobs := que_jobs qu @ [j]\<rparr>))"

text \<open>
  \<open>Add\<close>. The result is \<open>None\<close> when the type assertion of line 30 panics; otherwise the
  returned \<open>error\<close>, the \<open>Deployment\<close> the argument points to as \<open>Add\<close> leaves it, and the
  repository. \<open>marshalError\<close> is the error of \<open>json.Marshal\<close>, if any.
\<close>

definition Add ::
  "pkg \<Rightarrow> error option \<Rightarrow> DeploymentRepo \<Rightarrow> iface \<Rightarrow>
     (error option \<times> deployment \<times> DeploymentRepo) option" where
  "Add p marshalError r data =
     (case data of
        OtherValue \<Rightarrow> None
      | DeploymentPtr d0 \<Rightarrow>
          let d1 = (if ID d0 = '''' then d0\<lparr>ID := UUID p\<rparr> else d0) in
          (case insertDeployment (repo_db r) d1 of
             (Inl e, b) \<Rightarrow> Some (Some e, d1, r\<lparr>repo_db := b\<rparr>)
           | (Inr created, b) \<Rightarrow>
               let d2 = d1\<lparr>CreatedAt := created\<rparr>;
                   d3 = d2\<lparr>ID := CleanUUID p (ID d2)\<rparr>;
                   d4 = d3\<lparr>OldReleaseID := CleanUUID p (OldReleaseID d3)\<rparr>;
                   d5 = d4\<lparr>NewReleaseID := CleanUUID p (NewReleaseID d4)\<rparr>;
                   r1 = r\<lparr>repo_db := b\<rparr>
               in (case marshalError of
                     Some e \<Rightarrow> Some (Some e, d5, r1)
                   | None \<Rightarrow>
                       (case Enqueue (repo_q r1) \<lparr>Type = ''Deployment'', Args = DeployID (ID d5)\<rparr> of
                          (Some e, qu) \<Rightarrow> Some (Some e, d5, r1\<lparr>repo_q := qu\<rparr>)
                        | (None, qu) \<Rightarrow> Some (None, d5, r1\<lparr>repo_q := qu\<rparr>)))))"

subsection \<open>Reading deployment events\<close>

text \<open>
  What \<open>Scan\<close> will find in a \<open>postgres.Scanner\<close>: an error (of the query, \<open>sql.ErrNoRows\<close>,
  or of the conversion of the row) or the row.
\<close>

type_synonym scanner = "error + deploymentEvent"

definition scannerOf :: "db \<Rightarrow> deploymentEvent \<Rightarrow> scanner" where
  "scannerOf b row = (case scanFails b row of Some e \<Rightarrow> Inl e | None \<Rightarrow> Inr row)"

text \<open>A row with its two uuid fields cleaned, as lines 209 and 210 leave it.\<close>

definition cleaned :: "pkg \<Rightarrow> deploymentEvent \<Rightarrow> deploymentEvent" where
  "cleaned p row = row\<lparr>eDeploymentID := CleanUUID p (eDeploymentID row),
                       eReleaseID := CleanUUID p (eReleaseID row)\<rparr>"

definition scanDeploymentEvent :: "pkg \<Rightarrow> scanner \<Rightarrow> error + deploymentEvent" where
  "scanDeploymentEvent p s =
     (case s of
        Inl e \<Rightarrow> Inl (if e = ErrNoRows then ErrNotFound else e)
      | Inr row \<Rightarrow> Inr (cleaned p row))"

text \<open>
  \<open>r.db.Query\<close> with the query of line 178: the rows of the deployment with an id above
  \<open>sinceID\<close>, in the order of the table, since the query has no \<open>ORDER BY\<close>.
\<close>

definition selected :: "db \<Rightarrow> string \<Rightarrow> int \<Rightarrow> deploymentEvent \<Rightarrow> bool" where
  "selected b deploymentID sinceID row \<longleftrightarrow>
     sameUUID b (eDeploymentID row) deploymentID \<and> sinceID < eID row"

definition queryEvents :: "db \<Rightarrow> string \<Rightarrow> int \<Rightarrow> error + scanner list" where
  "queryEvents b deploymentID sinceID =
     (case queryError b of
        Some e \<Rightarrow> Inl e
      | None \<Rightarrow>
          Inr (map (scannerOf b) (filter (selected b deploymentID sinceID) (deployment_events b))))"

text \<open>The loop of lines 184 to 191: \<open>events\<close> grows by one scanned row per turn.\<close>

fun scanRows ::
  "pkg \<Rightarrow> scanner list \<Rightarrow> deploymentEvent list \<Rightarrow> error + deploymentEvent list" where
  "scanRows p [] events = Inr events"
| "scanRows p (s # rows) events =
     (case scanDeploymentEvent p s of
        Inl e \<Rightarrow> Inl e
      | Inr event \<Rightarrow> scanRows p rows (events @ [event]))"

definition listEvents :: "pkg \<Rightarrow> db \<Rightarrow> string \<Rightarrow> int \<Rightarrow> error + deploymentEvent list" where
  "listEvents p b deploymentID sinceID =
     (case queryEvents b deploymentID sinceID of
        Inl e \<Rightarrow> Inl e
      | Inr rows \<Rightarrow> scanRows p rows [])"

text \<open>\<open>r.db.QueryRow\<close> with the query of line 196, and \<open>getEvent\<close>.\<close>

definition queryEvent :: "db \<Rightarrow> int \<Rightarrow> scanner" where
  "queryEvent b i =
     (case queryError b of
        Some e \<Rightarrow> Inl e
      | None \<Rightarrow>
          (case filter (\<lambda>row. eID row = i) (deployment_events b) of
             [] \<Rightarrow> Inl ErrNoRows
           | row # rows \<Rightarrow> scannerOf b row))"

definition getEvent :: "pkg \<Rightarrow> db \<Rightarrow> int \<Rightarrow> error + deploymentEvent" where
  "getEvent p b i = scanDeploymentEvent p (queryEvent b i)"

section \<open>The live tail (streamDeploymentEvents)\<close>

text \<open>
  \<open>strconv.ParseInt(s, 10, 64)\<close>: an optional sign, then one or more decimal digits and
  nothing else (the digits are the bytes 48 to 57); the value must fit in 64 bits, signed.
  \<open>None\<close> is a returned error.
\<close>

definition digit :: "char \<Rightarrow> nat option" where
  "digit ch =
     (let v = (of_char ch :: nat) in if 48 \<le> v \<and> v \<le> 57 then Some (v - 48) else None)"

fun digits :: "string \<Rightarrow> nat \<Rightarrow> nat option" where
  "digits [] n = Some n"
| "digits (ch # cs) n = (case digit ch of None \<Rightarrow> None | Some v \<Rightarrow> digits cs (10 * n + v))"

definition ParseUint :: "string \<Rightarrow> nat option" where
  "ParseUint s = (if s = [] then None else digits s 0)"

definition ParseInt :: "string \<Rightarrow> int option" where
  "ParseInt s =
     (if s = [] then None
      else
        let neg = (hd s = CHR ''-'');
            body = (if hd s = CHR ''+'' \<or> hd s = CHR ''-'' then tl s else s)
        in (case ParseUint body of
              None \<Rightarrow> None
            | Some un \<Rightarrow>
                if \<not> neg \<and> 2 ^ 63 \<le> un then None
                else if neg \<and> 2 ^ 63 < un then None
                else Some (if neg then - int un else int un)))"

text \<open>
  The \<open>http.ResponseWriter\<close>: what has been written, piece by piece, and how many more
  writes the connection takes before \<open>Write\<close> fails (\<open>None\<close>: any number).
\<close>

datatype chunk =
    IdLine int
  | Data deploymentEvent
  | Newline
  | KeepAlive
  | HttpError string int

record writer =
  contentType :: string
  body :: "chunk list"
  writesLeft :: "nat option"

definition Write :: "writer \<Rightarrow> chunk \<Rightarrow> error option \<times> writer" where
  "Write wr ch =
     (case writesLeft wr of
        None \<Rightarrow> (None, wr\<lparr>body := body wr @ [ch]\<rparr>)
      | Some 0 \<Rightarrow> (Some (Error ''write failed''), wr)
      | Some (Suc n) \<Rightarrow> (None, wr\<lparr>body := body wr @ [ch], writesLeft := Some n\<rparr>))"

definition sendKeepAlive :: "writer \<Rightarrow> error option \<times> writer" where
  "sendKeepAlive wr = Write wr KeepAlive"

definition sendDeploymentEvent :: "writer \<Rightarrow> deploymentEvent \<Rightarrow> error option \<times> writer" where
  "sendDeploymentEvent wr e =
     andThen (andThen (Write wr (IdLine (eID e))) (\<lambda>wr. Write wr (Data e)))
       (\<lambda>wr. Write wr Newline)"

text \<open>
  What the handler meets while it runs. Before the loop, the listener's callback reports
  the connection: \<open>Connected\<close> closes \<open>connected\<close>, \<open>Disconnected\<close> closes \<open>done\<close>, and
  \<open>ConnectionAttemptFailed\<close> stores its error in \<open>err\<close> and closes \<open>done\<close>. In the loop,
  each turn of the \<open>select\<close> takes one case: \<open>done\<close> (closed by the callback, which may have
  stored an error), the client's \<open>CloseNotify\<close>, the 30 second timer, or a notification
  with its \<open>Extra\<close> text. Between two turns other sessions may append rows to
  \<open>deployment_events\<close>. The order of all this is the environment's choice: it is the list
  the handler is given.
\<close>

datatype listenerEvent = Connected | Disconnected | ConnectionAttemptFailed error

datatype occurrence =
    Appended deploymentEvent
  | Done "error option"
  | Closed
  | Tick
  | Notify string

text \<open>
  The variables of the handler: \<open>w\<close>, the function's \<open>err\<close> (the one the deferred function
  reads) and \<open>currID\<close>, an \<open>int64\<close> that is only assigned and compared.
\<close>

record handler =
  wr :: writer
  err :: "error option"
  currID :: int

text \<open>
  The handler has returned (its deferred function has run), or it waits in a \<open>select\<close>
  for something the list does not hold.
\<close>

datatype status = Returned | Waiting

text \<open>The deferred function of lines 78 to 82: \<open>http.Error\<close> when \<open>err\<close> is set.\<close>

definition errorText :: "error \<Rightarrow> string" where
  "errorText e = (case e of Error msg \<Rightarrow> msg)"

definition return :: "handler \<Rightarrow> status \<times> handler" where
  "return h =
     (case err h of
        None \<Rightarrow> (Returned, h)
      | Some e \<Rightarrow> (Returned, h\<lparr>wr := snd (Write (wr h) (HttpError (errorText e) 500))\<rparr>))"

text \<open>
  The loop of lines 148 to 174. In the \<open>Notify\<close> case \<open>id, err := ...\<close> declares a new
  \<open>err\<close> for the case, so the errors of that case never reach the deferred function; and
  the case leaves \<open>currID\<close> as it is.
\<close>

fun tail :: "pkg \<Rightarrow> db \<Rightarrow> handler \<Rightarrow> occurrence list \<Rightarrow> status \<times> handler" where
  "tail p b h [] = (Waiting, h)"
| "tail p b h (Appended e # os) =
     tail p (b\<lparr>deployment_events := deployment_events b @ [e]\<rparr>) h os"
| "tail p b h (Done listenErr # os) =
     return (case listenErr of None \<Rightarrow> h | Some e \<Rightarrow> h\<lparr>err := Some e\<rparr>)"
| "tail p b h (Closed # os) = return h"
| "tail p b h (Tick # os) =
     (case sendKeepAlive (wr h) of
        (Some e, w1) \<Rightarrow> return (h\<lparr>wr := w1, err := Some e\<rparr>)
      | (None, w1) \<Rightarrow> tail p b (h\<lparr>wr := w1, err := None\<rparr>) os)"
| "tail p b h (Notify extra # os) =
     (case ParseInt extra of
        None \<Rightarrow> return h
      | Some i \<Rightarrow>
          if i \<le> currID h then tail p b h os
          else
            (case getEvent p b i of
               Inl e \<Rightarrow> return h
             | Inr e \<Rightarrow>
                 (case sendDeploymentEvent (wr h) e of
                    (Some e1, w1) \<Rightarrow> return (h\<lparr>wr := w1\<rparr>)
                  | (None, w1) \<Rightarrow> tail p b (h\<lparr>wr := w1\<rparr>) os)))"

text \<open>The catch-up loop of lines 130 to 135.\<close>

fun catchUp :: "handler \<Rightarrow> deploymentEvent list \<Rightarrow> handler" where
  "catchUp h [] = h"
| "catchUp h (e # es) =
     (case sendDeploymentEvent (wr h) e of
        (Some e1, w1) \<Rightarrow> h\<lparr>wr := w1, err := Some e1\<rparr>
      | (None, w1) \<Rightarrow> catchUp (h\<lparr>wr := w1, err := None, currID := eID e\<rparr>) es)"

text \<open>
  \<open>streamDeploymentEvents\<close>, given the response writer, the database at the call, the
  report of the listener (\<open>None\<close>: none comes) and what happens in the loop.
\<close>

definition streamDeploymentEvents ::
  "pkg \<Rightarrow> db \<Rightarrow> string \<Rightarrow> writer \<Rightarrow> listenerEvent option \<Rightarrow> occurrence list \<Rightarrow>
     status \<times> handler" where
  "streamDeploymentEvents p b deploymentID w0 listener os =
     (let h0 = \<lparr>wr = w0\<lparr>contentType := ''text/event-stream; charset=utf-8''\<rparr>,
                err = None, currID = 0\<rparr> in
      case listEvents p b deploymentID 0 of
        Inl e \<Rightarrow> return (h0\<lparr>err := Some e\<rparr>)
      | Inr events \<Rightarrow>
          let h1 = catchUp h0 events in
          if err h1 \<noteq> None then return h1
          else
            (case listener of
               None \<Rightarrow> (Waiting, h1)
             | Some Disconnected \<Rightarrow> return h1
             | Some (ConnectionAttemptFailed e) \<Rightarrow> return (h1\<lparr>err := Some e\<rparr>)
             | Some Connected \<Rightarrow>
                 (case sendKeepAlive (wr h1) of
                    (Some e, w1) \<Rightarrow> return (h1\<lparr>wr := w1, err := Some e\<rparr>)
                  | (None, w1) \<Rightarrow> tail p b (h1\<lparr>wr := w1, err := None\<rparr>) os)))"

text \<open>The ids of the events on the response, in the order written.\<close>

definition emitted :: "handler \<Rightarrow> int list" where
  "emitted h = concat (map (\<lambda>ch. case ch of Data e \<Rightarrow> [eID e] | _ \<Rightarrow> []) (body (wr h)))"

subsection \<open>Values for the examples\<close>

text \<open>
  Packages for the examples: \<open>CleanUUID\<close> drops the dashes of a uuid and
  \<open>random.UUID()\<close> returns a fixed identifier.
\<close>

definition pkg0 :: pkg where
  "pkg0 = \<lparr>CleanUUID = filter (\<lambda>ch. ch \<noteq> CHR ''-''), UUID = ''ab-12''\<rparr>"

definition evt :: "int \<Rightarrow> deploymentEvent" where
  "evt i = \<lparr>eID = i, eDeploymentID = ''d1'', eReleaseID = ''r2'', JobType = ''web'',
           JobState = ''up'', Status = ''running'', eCreatedAt = 0\<rparr>"

text \<open>An empty database, and one whose table yields event 2 before event 1.\<close>

definition db0 :: db where
  "db0 = \<lparr>deployments = [], deployment_events = [], sameUUID = (=), queryError = None,
          scanFails = (\<lambda>row. None), now = 1000\<rparr>"


definition writer0 :: writer where
  "writer0 = \<lparr>contentType = '''', body = [], writesLeft = None\<rparr>"

text \<open>A repository whose work queue refuses every job, and a deployment without an id.\<close>

definition repoQueueDown :: DeploymentRepo where
  "repoQueueDown =
     \<lparr>repo_db = db0, repo_q = \<lparr>que_jobs = [], enqueueError = Some (Error ''queue down'')\<rparr>\<rparr>"

definition depNoID :: deployment where
  "depNoID = \<lparr>ID = '''', AppID = ''app'', OldReleaseID = ''a-1'', NewReleaseID = ''b-2'',
              Strategy = ''one-by-one'', CreatedAt = 0, FinishedAt = None\<rparr>"

section \<open>Properties of the one-at-a-time strategy\<close>

lemma andThen_None: "andThen r k = (None, s') \<longleftrightarrow> (\<exists>s1. r = (None, s1) \<and> k s1 = (None, s'))"
  by (cases r) (auto simp: andThen_def split: option.splits)

lemma andThen_Some:
  "andThen r k = (Some e, s') \<longleftrightarrow> r = (Some e, s') \<or> (\<exists>s1. r = (None, s1) \<and> k s1 = (Some e, s'))"
  by (cases r) (auto simp: andThen_def split: option.splits)

lemma doPut_frame:
  "doPut c f s = (r, s') \<Longrightarrow>
     newFormation s' = newFormation s \<and> oldFormation s' = oldFormation s \<and> sent s' = sent s \<and>
     calls s' = calls s @ [(Put f, r)]"
  by (auto simp: doPut_def split: prod.splits)

lemma doWait_frame:
  "doWait c je s = (r, s') \<Longrightarrow>
     newFormation s' = newFormation s \<and> oldFormation s' = oldFormation s \<and> sent s' = sent s \<and>
     calls s' = calls s @ [(Wait je, r)]"
  by (auto simp: doWait_def split: prod.splits)

lemma swapOne_ok:
  assumes "swapOne c d typ s = (None, s')"
  shows "newFormation s' = incr (newFormation s) typ \<and> oldFormation s' = decr (oldFormation s) typ \<and>
         sent s' = sent s \<and>
         calls s' = calls s @ map ok (unitCalls d typ (newFormation s) (oldFormation s) 1)"
  using assms
  by (auto simp: swapOne_def startOne_def stopOne_def andThen_None Let_def ok_def unitCalls_def
        incr_def decr_def dest!: doPut_frame doWait_frame)

lemma upto_shift: "map (\<lambda>k. k + 1) [i..j] = [i + 1..j + 1]"
proof (induction i j rule: upto.induct)
  case (1 i j)
  then show ?case by (cases "i \<le> j") (simp_all add: upto_rec1)
qed

lemma unitCalls_shift:
  "unitCalls d typ (incr new typ) (decr old typ) k = unitCalls d typ new old (k + 1)"
  by (simp add: unitCalls_def incr_def decr_def cnt_def algebra_simps)

lemma unitCalls_shift_fun:
  "unitCalls d typ (incr new typ) (decr old typ) = (\<lambda>k. unitCalls d typ new old (k + 1))"
  by (rule ext) (rule unitCalls_shift)

lemma unitLoop_ok:
  "unitLoop c d typ num i s = (None, s') \<Longrightarrow>
     newFormation s' = bump (newFormation s) typ 1 (num - i) \<and>
     oldFormation s' = bump (oldFormation s) typ (- 1) (num - i) \<and>
     sent s' = sent s \<and>
     calls s' = calls s @
       map ok (concat (map (unitCalls d typ (newFormation s) (oldFormation s)) [1..num - i]))"
proof (induction c d "typ" num i s arbitrary: s' rule: unitLoop.induct)
  case (1 c d ty num i s)
  show ?case
  proof (cases "i < num")
    case False
    with "1.prems" show ?thesis by (simp add: bump_def unitLoop.simps[of c d ty num i s])
  next
    case True
    with "1.prems" obtain s1 where
      a: "swapOne c d ty s = (None, s1)" and b: "unitLoop c d ty num (i + 1) s1 = (None, s')"
      by (auto simp: andThen_None unitLoop.simps[of c d ty num i s])
    note A = swapOne_ok[OF a]
    note B = "1.IH"[OF True b]
    have l: "[1..num - i] = 1 # map (\<lambda>k. k + 1) [1..num - (i + 1)]"
      using True by (simp add: upto_shift upto_rec1[of 1 "num - i"] algebra_simps)
    have n: "newFormation s' = bump (newFormation s) ty 1 (num - i)"
      using A B True by (auto simp: bump_def incr_def cnt_def)
    have o: "oldFormation s' = bump (oldFormation s) ty (- 1) (num - i)"
      using A B True by (auto simp: bump_def decr_def cnt_def)
    have cs: "calls s' = calls s @
       map ok (concat (map (unitCalls d ty (newFormation s) (oldFormation s)) [1..num - i]))"
      using A B by (simp add: l unitCalls_shift o_def)
    show ?thesis using n o cs A B by simp
  qed
qed

lemma typeLoop_ok:
  "typeLoop c d ts s = (None, s') \<Longrightarrow>
     (newFormation s', oldFormation s') = planEnd ts (newFormation s, oldFormation s) \<and>
     sent s' = sent s \<and>
     calls s' = calls s @ map ok (plan d ts (newFormation s) (oldFormation s))"
proof (induction ts arbitrary: s)
  case Nil
  then show ?case by simp
next
  case (Cons t ts)
  from Cons.prems obtain s1 where
    a: "unitLoop c d t (cnt (oldFormation s) t) 0 s = (None, s1)" and
    b: "typeLoop c d ts s1 = (None, s')"
    by (auto simp: andThen_None)
  from unitLoop_ok[OF a] Cons.IH[OF b] show ?case by simp
qed

lemma doPut_Some:
  "doPut c f s = (Some e, s') \<Longrightarrow> sent s' = sent s \<and> calls s' = calls s @ [(Put f, Some e)]"
  by (drule doPut_frame) simp

lemma doWait_Some:
  "doWait c je s = (Some e, s') \<Longrightarrow> sent s' = sent s \<and> calls s' = calls s @ [(Wait je, Some e)]"
  by (drule doWait_frame) simp

lemma doPut_None:
  "doPut c f s = (None, s') \<Longrightarrow>
     newFormation s' = newFormation s \<and> oldFormation s' = oldFormation s \<and> sent s' = sent s \<and>
     calls s' = calls s @ [ok (Put f)]"
  by (drule doPut_frame) (simp add: ok_def)

lemma doWait_None:
  "doWait c je s = (None, s') \<Longrightarrow>
     newFormation s' = newFormation s \<and> oldFormation s' = oldFormation s \<and> sent s' = sent s \<and>
     calls s' = calls s @ [ok (Wait je)]"
  by (drule doWait_frame) (simp add: ok_def)

lemma failShape:
  "cs' = cs @ map ok pre @ [(x, Some e)] \<Longrightarrow> pre @ x # post = u \<Longrightarrow>
     \<exists>pre x post. cs' = cs @ map ok pre @ [(x, Some e)] \<and> pre @ x # post = u"
  by blast

lemma swapOne_fail:
  assumes "swapOne c d ty s = (Some e, s')"
  shows "sent s' = sent s \<and> (\<exists>pre x post. calls s' = calls s @ map ok pre @ [(x, Some e)] \<and>
           pre @ x # post = unitCalls d ty (newFormation s) (oldFormation s) 1)"
proof -
  let ?f1 = "\<lparr>fAppID = AppID d, fReleaseID = NewReleaseID d, Processes = incr (newFormation s) ty\<rparr>"
  let ?f2 = "\<lparr>fAppID = AppID d, fReleaseID = OldReleaseID d, Processes = decr (oldFormation s) ty\<rparr>"
  let ?up = "Wait [(ty, [(''up'', 1)])]"
  let ?down = "Wait [(ty, [(''down'', 1)])]"
  let ?u = "unitCalls d ty (newFormation s) (oldFormation s) 1"
  have u: "?u = [Put ?f1, ?up, Put ?f2, ?down]"
    by (simp add: unitCalls_def incr_def decr_def)
  from assms consider
    (p1) "doPut c ?f1 (s\<lparr>newFormation := incr (newFormation s) ty\<rparr>) = (Some e, s')" |
    (w1) a where "doPut c ?f1 (s\<lparr>newFormation := incr (newFormation s) ty\<rparr>) = (None, a)"
       "doWait c [(ty, [(''up'', 1)])] a = (Some e, s')" |
    (p2) a b where "doPut c ?f1 (s\<lparr>newFormation := incr (newFormation s) ty\<rparr>) = (None, a)"
       "doWait c [(ty, [(''up'', 1)])] a = (None, b)"
       "doPut c \<lparr>fAppID = AppID d, fReleaseID = OldReleaseID d,
                  Processes = decr (oldFormation b) ty\<rparr>
          (b\<lparr>oldFormation := decr (oldFormation b) ty\<rparr>) = (Some e, s')" |
    (w2) a b g where "doPut c ?f1 (s\<lparr>newFormation := incr (newFormation s) ty\<rparr>) = (None, a)"
       "doWait c [(ty, [(''up'', 1)])] a = (None, b)"
       "doPut c \<lparr>fAppID = AppID d, fReleaseID = OldReleaseID d,
                  Processes = decr (oldFormation b) ty\<rparr>
          (b\<lparr>oldFormation := decr (oldFormation b) ty\<rparr>) = (None, g)"
       "doWait c [(ty, [(''down'', 1)])] g = (Some e, s')"
    unfolding swapOne_def startOne_def stopOne_def Let_def andThen_Some andThen_None
    by (elim disjE exE conjE) simp_all
  then show ?thesis
  proof cases
    case p1
    from doPut_Some[OF p1] have "sent s' = sent s" "calls s' = calls s @ map ok [] @ [(Put ?f1, Some e)]"
      by simp_all
    moreover have "[] @ Put ?f1 # [?up, Put ?f2, ?down] = ?u" by (simp add: u)
    ultimately show ?thesis using failShape by blast
  next
    case w1
    from doPut_None[OF w1(1)] doWait_Some[OF w1(2)]
    have "sent s' = sent s" "calls s' = calls s @ map ok [Put ?f1] @ [(?up, Some e)]"
      by simp_all
    moreover have "[Put ?f1] @ ?up # [Put ?f2, ?down] = ?u" by (simp add: u)
    ultimately show ?thesis using failShape by blast
  next
    case p2
    from doPut_None[OF p2(1)] doWait_None[OF p2(2)] doPut_Some[OF p2(3)]
    have "sent s' = sent s" "calls s' = calls s @ map ok [Put ?f1, ?up] @ [(Put ?f2, Some e)]"
      by simp_all
    moreover have "[Put ?f1, ?up] @ Put ?f2 # [?down] = ?u" by (simp add: u)
    ultimately show ?thesis using failShape by blast
  next
    case w2
    from doPut_None[OF w2(1)] doWait_None[OF w2(2)] doPut_None[OF w2(3)] doWait_Some[OF w2(4)]
    have "sent s' = sent s" "calls s' = calls s @ map ok [Put ?f1, ?up, Put ?f2] @ [(?down, Some e)]"
      by simp_all
    moreover have "[Put ?f1, ?up, Put ?f2] @ ?down # [] = ?u" by (simp add: u)
    ultimately show ?thesis using failShape by blast
  qed
qed

lemma unitLoop_fail:
  "unitLoop c d ty num i s = (Some e, s') \<Longrightarrow>
     sent s' = sent s \<and> (\<exists>pre x post. calls s' = calls s @ map ok pre @ [(x, Some e)] \<and>
       pre @ x # post = concat (map (unitCalls d ty (newFormation s) (oldFormation s)) [1..num - i]))"
proof (induction c d ty num i s arbitrary: s' rule: unitLoop.induct)
  case (1 c d ty num i s)
  have lt: "i < num" using "1.prems" by (auto simp: unitLoop.simps[of c d ty num i s] split: if_splits)
  have l: "[1..num - i] = 1 # map (\<lambda>k. k + 1) [1..num - (i + 1)]"
    using lt by (simp add: upto_shift upto_rec1[of 1 "num - i"] algebra_simps)
  let ?rest = "concat (map (unitCalls d ty (incr (newFormation s) ty) (decr (oldFormation s) ty))
                 [1..num - (i + 1)])"
  have whole: "concat (map (unitCalls d ty (newFormation s) (oldFormation s)) [1..num - i]) =
      unitCalls d ty (newFormation s) (oldFormation s) 1 @ ?rest"
    by (simp add: l unitCalls_shift_fun o_def)
  from "1.prems" lt have "andThen (swapOne c d ty s) (unitLoop c d ty num (i + 1)) = (Some e, s')"
    by (simp add: unitLoop.simps[of c d ty num i s])
  then consider
    (now) "swapOne c d ty s = (Some e, s')" |
    (later) s1 where "swapOne c d ty s = (None, s1)" "unitLoop c d ty num (i + 1) s1 = (Some e, s')"
    by (auto simp: andThen_Some)
  then show ?case
  proof cases
    case now
    from swapOne_fail[OF now] obtain pre x post where
      "sent s' = sent s" "calls s' = calls s @ map ok pre @ [(x, Some e)]"
      "pre @ x # post = unitCalls d ty (newFormation s) (oldFormation s) 1" by blast
    then have "sent s' = sent s" "calls s' = calls s @ map ok pre @ [(x, Some e)]"
      "pre @ x # (post @ ?rest) =
         concat (map (unitCalls d ty (newFormation s) (oldFormation s)) [1..num - i])"
      by (simp_all add: whole)
    then show ?thesis by blast
  next
    case later
    note A = swapOne_ok[OF later(1)]
    from "1.IH"[OF lt later(2)] A obtain pre x post where
      B: "sent s' = sent s" "calls s' = calls s1 @ map ok pre @ [(x, Some e)]"
      "pre @ x # post = ?rest" by auto
    have "calls s' = calls s @
        map ok (unitCalls d ty (newFormation s) (oldFormation s) 1 @ pre) @ [(x, Some e)]"
      using A B by simp
    moreover have "(unitCalls d ty (newFormation s) (oldFormation s) 1 @ pre) @ x # post =
         concat (map (unitCalls d ty (newFormation s) (oldFormation s)) [1..num - i])"
      using B by (simp add: whole)
    ultimately show ?thesis using B(1) by blast
  qed
qed

lemma typeLoop_fail:
  "typeLoop c d ts s = (Some e, s') \<Longrightarrow>
     sent s' = sent s \<and> (\<exists>pre x post. calls s' = calls s @ map ok pre @ [(x, Some e)] \<and>
       pre @ x # post = plan d ts (newFormation s) (oldFormation s))"
proof (induction ts arbitrary: s)
  case Nil
  then show ?case by simp
next
  case (Cons t ts)
  let ?n = "cnt (oldFormation s) t"
  let ?blk = "concat (map (unitCalls d t (newFormation s) (oldFormation s)) [1..?n])"
  from Cons.prems consider
    (now) "unitLoop c d t ?n 0 s = (Some e, s')" |
    (later) s1 where "unitLoop c d t ?n 0 s = (None, s1)" "typeLoop c d ts s1 = (Some e, s')"
    by (auto simp: andThen_Some)
  then show ?case
  proof cases
    case now
    from unitLoop_fail[OF now] obtain pre x post where
      B: "sent s' = sent s" "calls s' = calls s @ map ok pre @ [(x, Some e)]"
      "pre @ x # post = ?blk" by auto
    let ?tl = "plan d ts (bump (newFormation s) t 1 ?n) (bump (oldFormation s) t (- 1) ?n)"
    have "pre @ x # (post @ ?tl) = plan d (t # ts) (newFormation s) (oldFormation s)"
      using B(3) by simp
    with B(1,2) show ?thesis by blast
  next
    case later
    note A = unitLoop_ok[OF later(1)]
    from Cons.IH[OF later(2)] obtain pre x post where
      B: "sent s' = sent s1" "calls s' = calls s1 @ map ok pre @ [(x, Some e)]"
      "pre @ x # post = plan d ts (newFormation s1) (oldFormation s1)" by blast
    have "calls s' = calls s @ map ok (?blk @ pre) @ [(x, Some e)]"
      using A B by simp
    moreover have "(?blk @ pre) @ x # post = plan d (t # ts) (newFormation s) (oldFormation s)"
      using A B by simp
    moreover have "sent s' = sent s" using A B(1) by simp
    ultimately show ?thesis using failShape by blast
  qed
qed






lemma tracked_upd [simp]:
  "tracked c w0 (s\<lparr>newFormation := n\<rparr>) = tracked c w0 s"
  "tracked c w0 (s\<lparr>oldFormation := m\<rparr>) = tracked c w0 s"
  by (simp_all add: tracked_def)







lemma typeLoop_prefix:
  assumes "typeLoop c d ts s = (r, s')" and "calls s = []"
  shows "prefix (map fst (calls s')) (plan d ts (newFormation s) (oldFormation s))"
proof (cases r)
  case None
  with typeLoop_ok[of c d ts s s'] assms show ?thesis by (simp add: ok_def o_def)
next
  case (Some e)
  with typeLoop_fail[of c d ts s e s'] assms obtain pre x post where
    "calls s' = map ok pre @ [(x, Some e)]"
    "pre @ x # post = plan d ts (newFormation s) (oldFormation s)" by auto
  then have "map fst (calls s') @ post = plan d ts (newFormation s) (oldFormation s)"
    by (simp add: ok_def o_def)
  then show ?thesis by (rule prefixI[OF sym])
qed












lemma oneByOne_run:
  assumes "StreamJobEvents c w (AppID d) 0 = (None, w1)"
    and "GetFormation c w1 (AppID d) (OldReleaseID d) = Inr f"
    and "oneByOne c order d events w = (r, s)"
  shows "\<exists>s'. typeLoop c d order (entry w1 (Processes f) events) = (r, s') \<and>
           s = s'\<lparr>world := streamClose c (world s')\<rparr>"
  using assms by (auto simp: oneByOne_def split: prod.splits)

lemma entry_simps [simp]:
  "world (entry w old events) = w"
  "newFormation (entry w old events) = Map.empty"
  "oldFormation (entry w old events) = old"
  "sent (entry w old events) = events"
  "calls (entry w old events) = []"
  by (simp_all add: entry_def)


lemmas run_eval = simClient_def simPut_def simGet_def simWait_def dep_def jobEv_def
  oneByOne_def entry_def unitLoop.simps andThen_def swapOne_def startOne_def stopOne_def
  doPut_def doWait_def incr_def decr_def cnt_def satisfied_def remaining_def decrement_def Let_def

lemma rangeOrder_web: "rangeOrder [''web''] [''web'' \<mapsto> 3]"
  by (simp add: rangeOrder_def)

lemma web3_setup:
  "StreamJobEvents simClient web3 (AppID dep) 0 = (None, web3)"
  "GetFormation simClient web3 (AppID dep) (OldReleaseID dep) =
     Inr \<lparr>fAppID = ''app'', fReleaseID = ''R1'', Processes = [''web'' \<mapsto> 3]\<rparr>"
  by (simp_all add: simClient_def simGet_def web3_def dep_def)

lemma web3_succeeds: "fst (oneByOne simClient [''web''] dep [] web3) = None"
  by (simp add: run_eval web3_def)

subsection \<open>Every unit is swapped once, in four steps\<close>



subsection \<open>Nothing is sent on the events channel\<close>

lemma typeLoop_sent: "typeLoop c d ts s = (r, s') \<Longrightarrow> sent s' = sent s"
  using typeLoop_ok[of c d ts s s'] typeLoop_fail[of c d ts s _ s'] by (cases r) simp_all

lemma oneByOne_sent: "sent (snd (oneByOne c order d events w)) = events"
proof (cases "StreamJobEvents c w (AppID d) 0")
  case (Pair r1 w1)
  show ?thesis
  proof (cases r1)
    case (Some e)
    with Pair show ?thesis by (simp add: oneByOne_def)
  next
    case None
    show ?thesis
    proof (cases "GetFormation c w1 (AppID d) (OldReleaseID d)")
      case (Inl e)
      with Pair None show ?thesis by (simp add: oneByOne_def)
    next
      case (Inr f)
      obtain r s' where t: "typeLoop c d order (entry w1 (Processes f) events) = (r, s')"
        by (cases "typeLoop c d order (entry w1 (Processes f) events)")
      from typeLoop_sent[OF t] Pair None Inr t show ?thesis by (simp add: oneByOne_def)
    qed
  qed
qed

lemma rangeOrder_single: "rangeOrder order [a \<mapsto> n] \<Longrightarrow> order = [a]"
proof -
  assume "rangeOrder order [a \<mapsto> n]"
  then have d: "distinct order" and s: "set order = {a}" by (simp_all add: rangeOrder_def)
  show "order = [a]"
  proof (cases order)
    case Nil
    with s show ?thesis by simp
  next
    case (Cons x xs)
    with s have x: "x = a" and sub: "set xs \<subseteq> {a}" by auto
    from d Cons x have "a \<notin> set xs" by simp
    with sub have "xs = []" by (cases xs) auto
    with Cons x show ?thesis by simp
  qed
qed

lemma upto_1_3: "[1..3] = [1, 2, 3]"
  by (simp add: upto.simps)

lemma plan_web3:
  "waits (map ok (plan d [''web''] Map.empty [''web'' \<mapsto> 3])) =
     [[(''web'', [(''up'', 1)])], [(''web'', [(''down'', 1)])],
      [(''web'', [(''up'', 1)])], [(''web'', [(''down'', 1)])],
      [(''web'', [(''up'', 1)])], [(''web'', [(''down'', 1)])]]"
  by (simp add: waits_def ok_def unitCalls_def cnt_def upto_1_3)

lemma web3_waits:
  "waits (calls (snd (oneByOne simClient [''web''] dep [] web3))) =
     [[(''web'', [(''up'', 1)])], [(''web'', [(''down'', 1)])],
      [(''web'', [(''up'', 1)])], [(''web'', [(''down'', 1)])],
      [(''web'', [(''up'', 1)])], [(''web'', [(''down'', 1)])]]"
  by (simp add: run_eval web3_def waits_def)

text \<open>
  C2, as the code has it. \<open>oneByOne\<close> receives the \<open>events\<close> channel and never sends on
  it: whatever the run does, what has been sent on the channel at the return is what had
  been sent before the call, so no step confirmed by the strategy emits a
  \<open>DeploymentEvent\<close>. In particular a successful deployment of the formation \<open>{web: 3}\<close>
  confirms exactly six steps, an \<open>up\<close> and a \<open>down\<close> of \<open>web\<close> in turn for each of the three
  units, every one of its twelve calls returning no error, and emits no event for them.
\<close>

theorem oneByOne_emits_no_event:
  assumes "oneByOne c order d events w = (r, s)"
  shows "sent s = events \<and>
     (r = None \<longrightarrow> StreamJobEvents c w (AppID d) 0 = (None, w1) \<longrightarrow>
      GetFormation c w1 (AppID d) (OldReleaseID d) = Inr f \<longrightarrow>
      Processes f = [''web'' \<mapsto> 3] \<longrightarrow> rangeOrder order (Processes f) \<longrightarrow>
        waits (calls s) =
          [[(''web'', [(''up'', 1)])], [(''web'', [(''down'', 1)])],
           [(''web'', [(''up'', 1)])], [(''web'', [(''down'', 1)])],
           [(''web'', [(''up'', 1)])], [(''web'', [(''down'', 1)])]] \<and>
        list_all (\<lambda>x. snd x = None) (calls s))"
proof -
  have a: "sent s = events" using oneByOne_sent[of c order d events w] assms by simp
  have b: "waits (calls s) =
          [[(''web'', [(''up'', 1)])], [(''web'', [(''down'', 1)])],
           [(''web'', [(''up'', 1)])], [(''web'', [(''down'', 1)])],
           [(''web'', [(''up'', 1)])], [(''web'', [(''down'', 1)])]] \<and>
        list_all (\<lambda>x. snd x = None) (calls s)"
    if h: "r = None" "StreamJobEvents c w (AppID d) 0 = (None, w1)"
      "GetFormation c w1 (AppID d) (OldReleaseID d) = Inr f"
      "Processes f = [''web'' \<mapsto> 3]" "rangeOrder order (Processes f)"
  proof -
    from oneByOne_run[OF h(2,3) assms] h(1) obtain s' where
      run: "typeLoop c d order (entry w1 (Processes f) events) = (None, s')" and
      s: "s = s'\<lparr>world := streamClose c (world s')\<rparr>" by blast
    have o: "order = [''web'']" using h(4,5) rangeOrder_single by simp
    from typeLoop_ok[OF run] s have cs: "calls s = map ok (plan d [''web''] Map.empty [''web'' \<mapsto> 3])"
      by (simp add: o h(4))
    have "list_all (\<lambda>x. snd x = None) (calls s)"
      unfolding cs by (simp add: ok_def unitCalls_def cnt_def upto_1_3)
    then show ?thesis using plan_web3 cs by simp
  qed
  from a b show ?thesis by blast
qed

text \<open>
  The end-to-end example of the spec: the deployment of \<open>{web: 3}\<close> from R1 to R2
  succeeds and confirms six steps, and the events channel has received nothing, not six
  events.
\<close>

theorem oneByOne_emits_no_event_counterexample:
  "fst (oneByOne simClient [''web''] dep [] web3) = None \<and>
   length (waits (calls (snd (oneByOne simClient [''web''] dep [] web3)))) = 6 \<and>
   sent (snd (oneByOne simClient [''web''] dep [] web3)) = [] \<and>
   length (sent (snd (oneByOne simClient [''web''] dep [] web3))) \<noteq> 6"
  using web3_succeeds web3_waits oneByOne_sent[of simClient "[''web'']" dep "[]" web3] by simp

theorem oneByOne_emits_no_event_witness:
  "fst (oneByOne simClient [''web''] dep [] web3) = None \<and>
   StreamJobEvents simClient web3 (AppID dep) 0 = (None, web3) \<and>
   GetFormation simClient web3 (AppID dep) (OldReleaseID dep) =
     Inr \<lparr>fAppID = ''app'', fReleaseID = ''R1'', Processes = [''web'' \<mapsto> 3]\<rparr> \<and>
   rangeOrder [''web''] [''web'' \<mapsto> 3] \<and>
   sent (snd (oneByOne simClient [''web''] dep [] web3)) = [] \<and>
   waits (calls (snd (oneByOne simClient [''web''] dep [] web3))) =
     [[(''web'', [(''up'', 1)])], [(''web'', [(''down'', 1)])],
      [(''web'', [(''up'', 1)])], [(''web'', [(''down'', 1)])],
      [(''web'', [(''up'', 1)])], [(''web'', [(''down'', 1)])]] \<and>
   list_all (\<lambda>x. snd x = None) (calls (snd (oneByOne simClient [''web''] dep [] web3)))"
proof -
  let ?run = "oneByOne simClient [''web''] dep [] web3"
  have run: "?run = (None, snd ?run)"
    using web3_succeeds by (simp add: prod_eq_iff)
  from oneByOne_emits_no_event[OF run, of web3
      "\<lparr>fAppID = ''app'', fReleaseID = ''R1'', Processes = [''web'' \<mapsto> 3]\<rparr>"]
  show ?thesis using web3_setup rangeOrder_web web3_succeeds by simp
qed

subsection \<open>The order of the types\<close>

lemma mutations_fst:
  "mutations cs = concat (map (\<lambda>c. case c of Put f \<Rightarrow> [f] | Wait je \<Rightarrow> []) (map fst cs))"
  by (simp add: mutations_def o_def)

lemma prefix_concat_map: "prefix xs ys \<Longrightarrow> prefix (concat (map g xs)) (concat (map g ys))"
  by (auto simp: prefix_def)


lemma oneByOne_prefix:
  assumes "StreamJobEvents c w (AppID d) 0 = (None, w1)"
    and "GetFormation c w1 (AppID d) (OldReleaseID d) = Inr f"
    and "oneByOne c order d events w = (r, s)"
  shows "prefix (map fst (calls s)) (plan d order Map.empty (Processes f)) \<and>
         (r = None \<longrightarrow> map fst (calls s) = plan d order Map.empty (Processes f))"
proof -
  from oneByOne_run[OF assms] obtain s' where
    run: "typeLoop c d order (entry w1 (Processes f) events) = (r, s')" and
    s: "s = s'\<lparr>world := streamClose c (world s')\<rparr>" by blast
  from typeLoop_prefix[OF run] s
  have p: "prefix (map fst (calls s)) (plan d order Map.empty (Processes f))" by simp
  have "map fst (calls s) = plan d order Map.empty (Processes f)" if "r = None"
    using typeLoop_ok[of c d order "entry w1 (Processes f) events" s'] run that s
    by (simp add: ok_def o_def)
  with p show ?thesis by blast
qed

lemma twoTypes_setup:
  "StreamJobEvents simClient twoTypes (AppID dep) 0 = (None, twoTypes)"
  "GetFormation simClient twoTypes (AppID dep) (OldReleaseID dep) =
     Inr \<lparr>fAppID = ''app'', fReleaseID = ''R1'',
          Processes = [''web'' \<mapsto> 1, ''worker'' \<mapsto> 1]\<rparr>"
  by (simp_all add: simClient_def simGet_def twoTypes_def dep_def)

lemma twoTypes_orders:
  "rangeOrder [''web'', ''worker''] [''web'' \<mapsto> 1, ''worker'' \<mapsto> 1]"
  "rangeOrder [''worker'', ''web''] [''web'' \<mapsto> 1, ''worker'' \<mapsto> 1]"
  by (auto simp: rangeOrder_def)

lemma twoTypes_web_first:
  "fst (oneByOne simClient [''web'', ''worker''] dep [] twoTypes) = None"
  "map (\<lambda>f. (fReleaseID f, Processes f ''web'', Processes f ''worker''))
     (mutations (calls (snd (oneByOne simClient [''web'', ''worker''] dep [] twoTypes)))) =
   [(''R2'', Some 1, None), (''R1'', Some 0, Some 1),
    (''R2'', Some 1, Some 1), (''R1'', Some 0, Some 0)]"
  by (simp_all add: run_eval twoTypes_def mutations_def)

lemma twoTypes_worker_first:
  "fst (oneByOne simClient [''worker'', ''web''] dep [] twoTypes) = None"
  "map (\<lambda>f. (fReleaseID f, Processes f ''web'', Processes f ''worker''))
     (mutations (calls (snd (oneByOne simClient [''worker'', ''web''] dep [] twoTypes)))) =
   [(''R2'', None, Some 1), (''R1'', Some 1, Some 0),
    (''R2'', Some 1, Some 1), (''R1'', Some 0, Some 0)]"
  by (simp_all add: run_eval twoTypes_def mutations_def)

lemma web3Failing_setup:
  "StreamJobEvents simClient web3Failing (AppID dep) 0 = (None, web3Failing)"
  "GetFormation simClient web3Failing (AppID dep) (OldReleaseID dep) =
     Inr \<lparr>fAppID = ''app'', fReleaseID = ''R1'', Processes = [''web'' \<mapsto> 3]\<rparr>"
  by (simp_all add: simClient_def simGet_def web3_def web3Failing_def dep_def)

text \<open>
  C6, as the code has it. The types are visited in the order in which \<open>range\<close> yields the
  keys of the formation map, which Go does not fix. For a given visiting order the
  sequence of formation mutations is fixed by the starting formation alone: two runs that
  visit the types in the same order, from the same starting formation, issue the same
  mutations as far as both get (the mutations of one are a prefix of the mutations of the
  other), whatever controller and event stream each meets, and the same mutations when
  both return without error.
\<close>

theorem oneByOne_calls_follow_order:
  assumes "StreamJobEvents c w (AppID d) 0 = (None, w1)"
    and "GetFormation c w1 (AppID d) (OldReleaseID d) = Inr f"
    and "StreamJobEvents c' w' (AppID d) 0 = (None, w1')"
    and "GetFormation c' w1' (AppID d) (OldReleaseID d) = Inr f'"
    and "Processes f' = Processes f"
    and "oneByOne c order d events w = (r, s)"
    and "oneByOne c' order d events' w' = (r', s')"
  shows "(prefix (mutations (calls s)) (mutations (calls s')) \<or>
          prefix (mutations (calls s')) (mutations (calls s))) \<and>
         (r = None \<and> r' = None \<longrightarrow> mutations (calls s) = mutations (calls s'))"
proof -
  let ?p = "plan d order Map.empty (Processes f)"
  note A = oneByOne_prefix[OF assms(1,2,6)]
  note B = oneByOne_prefix[OF assms(3,4,7)]
  from A B assms(5) have "prefix (map fst (calls s)) ?p" "prefix (map fst (calls s')) ?p"
    by simp_all
  then have "prefix (map fst (calls s)) (map fst (calls s')) \<or>
             prefix (map fst (calls s')) (map fst (calls s))"
    by (rule prefix_same_cases)
  then have one: "prefix (mutations (calls s)) (mutations (calls s')) \<or>
                  prefix (mutations (calls s')) (mutations (calls s))"
    unfolding mutations_fst using prefix_concat_map by blast
  have "mutations (calls s) = mutations (calls s')" if "r = None" "r' = None"
    using A B that assms(5) by (simp add: mutations_fst)
  with one show ?thesis by blast
qed

text \<open>
  Two runs on the same formation \<open>{web: 1, worker: 1}\<close> and the same event stream, one
  visiting \<open>web\<close> first and one visiting \<open>worker\<close> first, as \<open>range\<close> may: both succeed and
  their mutations differ.
\<close>

theorem oneByOne_order_counterexample:
  "rangeOrder [''web'', ''worker''] [''web'' \<mapsto> 1, ''worker'' \<mapsto> 1] \<and>
   rangeOrder [''worker'', ''web''] [''web'' \<mapsto> 1, ''worker'' \<mapsto> 1] \<and>
   fst (oneByOne simClient [''web'', ''worker''] dep [] twoTypes) = None \<and>
   fst (oneByOne simClient [''worker'', ''web''] dep [] twoTypes) = None \<and>
   mutations (calls (snd (oneByOne simClient [''web'', ''worker''] dep [] twoTypes))) \<noteq>
   mutations (calls (snd (oneByOne simClient [''worker'', ''web''] dep [] twoTypes)))"
proof -
  have "mutations (calls (snd (oneByOne simClient [''web'', ''worker''] dep [] twoTypes))) \<noteq>
        mutations (calls (snd (oneByOne simClient [''worker'', ''web''] dep [] twoTypes)))"
  proof
    assume "mutations (calls (snd (oneByOne simClient [''web'', ''worker''] dep [] twoTypes))) =
            mutations (calls (snd (oneByOne simClient [''worker'', ''web''] dep [] twoTypes)))"
    then have "map (\<lambda>f. (fReleaseID f, Processes f ''web'', Processes f ''worker''))
        (mutations (calls (snd (oneByOne simClient [''web'', ''worker''] dep [] twoTypes)))) =
      map (\<lambda>f. (fReleaseID f, Processes f ''web'', Processes f ''worker''))
        (mutations (calls (snd (oneByOne simClient [''worker'', ''web''] dep [] twoTypes))))"
      by simp
    then show False unfolding twoTypes_web_first(2) twoTypes_worker_first(2) by simp
  qed
  then show ?thesis using twoTypes_orders twoTypes_web_first(1) twoTypes_worker_first(1) by simp
qed

theorem oneByOne_calls_follow_order_witness:
  "StreamJobEvents simClient web3 (AppID dep) 0 = (None, web3) \<and>
   GetFormation simClient web3 (AppID dep) (OldReleaseID dep) =
     Inr \<lparr>fAppID = ''app'', fReleaseID = ''R1'', Processes = [''web'' \<mapsto> 3]\<rparr> \<and>
   StreamJobEvents simClient web3Failing (AppID dep) 0 = (None, web3Failing) \<and>
   GetFormation simClient web3Failing (AppID dep) (OldReleaseID dep) =
     Inr \<lparr>fAppID = ''app'', fReleaseID = ''R1'', Processes = [''web'' \<mapsto> 3]\<rparr> \<and>
   (prefix (mutations (calls (snd (oneByOne simClient [''web''] dep [] web3))))
           (mutations (calls (snd (oneByOne simClient [''web''] dep [] web3Failing)))) \<or>
    prefix (mutations (calls (snd (oneByOne simClient [''web''] dep [] web3Failing))))
           (mutations (calls (snd (oneByOne simClient [''web''] dep [] web3)))))"
proof -
  have a: "oneByOne simClient [''web''] dep [] web3 =
      (fst (oneByOne simClient [''web''] dep [] web3), snd (oneByOne simClient [''web''] dep [] web3))"
    by simp
  have b: "oneByOne simClient [''web''] dep [] web3Failing =
      (fst (oneByOne simClient [''web''] dep [] web3Failing),
       snd (oneByOne simClient [''web''] dep [] web3Failing))"
    by simp
  from oneByOne_calls_follow_order[OF web3_setup web3Failing_setup refl a b]
  show ?thesis using web3_setup web3Failing_setup by blast
qed

subsection \<open>The first error ends the run\<close>

lemma replay_append: "replay c w (xs @ ys) = replay c (replay c w xs) ys"
  by (induction xs arbitrary: w) simp_all





subsection \<open>The capacity bound\<close>

lemma stored_append: "stored d st (xs @ ys) = stored d (stored d st xs) ys"
  by (simp add: stored_def)

lemma stored_Nil [simp]: "stored d st [] = st"
  by (simp add: stored_def)

lemma stored_Cons: "stored d st (x # xs) = stored d (written d st x) xs"
  by (simp add: stored_def)

lemma written_failed: "written d st (x, Some e) = st"
  by (cases x) (simp_all add: written_def)

lemma level_balanced: "level N st \<Longrightarrow> balanced N st"
  by (simp add: level_def balanced_def)

lemma cnt_upd: "cnt (m(k \<mapsto> v)) t = (if t = k then v else cnt m t)"
  by (simp add: cnt_def)

lemma excess_started:
  "excess N (new(ty \<mapsto> cnt new ty + 1), old) t = excess N (new, old) t + (if t = ty then 1 else 0)"
  by (simp add: excess_def cnt_upd)

lemma excess_swapped:
  "excess N (new(ty \<mapsto> cnt new ty + 1), old(ty \<mapsto> cnt old ty - 1)) t = excess N (new, old) t"
  by (simp add: excess_def cnt_upd)

lemma started_balanced:
  "level N (new, old) \<Longrightarrow> balanced N (new(ty \<mapsto> cnt new ty + 1), old)"
  by (simp add: level_def balanced_def excess_started)

lemma swapped_level:
  "level N (new, old) \<Longrightarrow> level N (new(ty \<mapsto> cnt new ty + 1), old(ty \<mapsto> cnt old ty - 1))"
  by (simp add: level_def excess_swapped)

lemma take_unit:
  "take j [a, b, c, e] =
     (if j = 0 then [] else if j = 1 then [a] else if j = 2 then [a, b]
      else if j = 3 then [a, b, c] else [a, b, c, e])"
  by (cases j; simp; rename_tac j1; case_tac j1; simp; rename_tac j2; case_tac j2; simp;
      rename_tac j3; case_tac j3; simp)

lemma unit_balanced:
  assumes "level N (new, old)" and "NewReleaseID d \<noteq> OldReleaseID d"
  shows "balanced N (stored d (new, old) (map ok (take j (unitCalls d ty new old 1))))"
    and "stored d (new, old) (map ok (unitCalls d ty new old 1)) =
           (new(ty \<mapsto> cnt new ty + 1), old(ty \<mapsto> cnt old ty - 1))"
  using assms level_balanced[OF assms(1)] started_balanced[OF assms(1), of ty]
    level_balanced[OF swapped_level[OF assms(1), of ty]]
  by (simp_all add: unitCalls_def take_unit stored_Cons written_def ok_def)


lemma bump_incr: "1 \<le> n \<Longrightarrow> bump (incr m ty) ty 1 (n - 1) = bump m ty 1 n"
  by (auto simp: bump_def incr_def cnt_def)

lemma bump_decr: "1 \<le> n \<Longrightarrow> bump (decr m ty) ty (- 1) (n - 1) = bump m ty (- 1) n"
  by (auto simp: bump_def decr_def cnt_def)

lemma block_unfold:
  "1 \<le> n \<Longrightarrow> concat (map (unitCalls d ty new old) [1..n]) =
     unitCalls d ty new old 1 @
     concat (map (unitCalls d ty (incr new ty) (decr old ty)) [1..n - 1])"
proof -
  assume n: "1 \<le> n"
  have "[1..n] = 1 # map (\<lambda>k. k + 1) [1..n - 1]"
    using n by (simp add: upto_shift upto_rec1[of 1 n])
  then show ?thesis by (simp add: unitCalls_shift_fun o_def)
qed

lemma block_balanced:
  assumes "NewReleaseID d \<noteq> OldReleaseID d"
  shows "level N (new, old) \<Longrightarrow>
     balanced N (stored d (new, old)
       (map ok (take j (concat (map (unitCalls d ty new old) [1..n]))))) \<and>
     stored d (new, old) (map ok (concat (map (unitCalls d ty new old) [1..n]))) =
       (bump new ty 1 n, bump old ty (- 1) n) \<and>
     level N (bump new ty 1 n, bump old ty (- 1) n)"
proof (induction "nat n" arbitrary: n new old j)
  case 0
  then have "n \<le> 0" by simp
  with "0.prems" show ?case by (simp add: bump_def level_balanced)
next
  case (Suc m)
  then have n: "1 \<le> n" and m: "m = nat (n - 1)" by simp_all
  let ?u = "unitCalls d ty new old 1"
  let ?new = "incr new ty" and ?old = "decr old ty"
  let ?rest = "concat (map (unitCalls d ty ?new ?old) [1..n - 1])"
  have lev: "level N (?new, ?old)"
    using swapped_level[OF Suc.prems, of ty] by (simp add: incr_def decr_def)
  have u: "stored d (new, old) (map ok ?u) = (?new, ?old)"
    using unit_balanced(2)[OF Suc.prems assms, of ty] by (simp add: incr_def decr_def)
  have len: "length ?u = 4" by (simp add: unitCalls_def)
  note IH = Suc.hyps(1)[OF m lev]
  have whole: "stored d (new, old) (map ok (?u @ ?rest)) = (bump new ty 1 n, bump old ty (- 1) n)"
    using IH[of 0] by (simp add: stored_append u bump_incr[OF n] bump_decr[OF n])
  have fin: "level N (bump new ty 1 n, bump old ty (- 1) n)"
    using IH[of 0] by (simp add: bump_incr[OF n] bump_decr[OF n])
  have bal: "balanced N (stored d (new, old) (map ok (take j (?u @ ?rest))))"
  proof (cases "j \<le> 4")
    case True
    then have e: "take j (?u @ ?rest) = take j ?u" by (simp add: len)
    show ?thesis unfolding e by (rule unit_balanced(1)[OF Suc.prems assms])
  next
    case False
    then have e: "take j (?u @ ?rest) = ?u @ take (j - 4) ?rest" by (simp add: len)
    show ?thesis unfolding e map_append stored_append u using IH[of "j - 4"] by simp
  qed
  show ?case using bal whole fin by (simp add: block_unfold[OF n])
qed

lemma plan_balanced:
  assumes "NewReleaseID d \<noteq> OldReleaseID d"
  shows "level N (new, old) \<Longrightarrow>
     balanced N (stored d (new, old) (map ok (take j (plan d ts new old))))"
proof (induction ts arbitrary: new old j)
  case Nil
  then show ?case by (simp add: level_balanced)
next
  case (Cons t ts)
  let ?n = "cnt old t"
  let ?blk = "concat (map (unitCalls d t new old) [1..?n])"
  let ?new = "bump new t 1 ?n" and ?old = "bump old t (- 1) ?n"
  note B = block_balanced[OF assms Cons.prems, of _ t ?n]
  show ?case
  proof (cases "j \<le> length ?blk")
    case True
    then have e: "take j (plan d (t # ts) new old) = take j ?blk" by simp
    show ?thesis unfolding e using B[of j] by simp
  next
    case False
    then have e: "take j (plan d (t # ts) new old) =
        ?blk @ take (j - length ?blk) (plan d ts ?new ?old)" by simp
    have b: "stored d (new, old) (map ok ?blk) = (?new, ?old)" and l: "level N (?new, ?old)"
      using B[of 0] by simp_all
    show ?thesis unfolding e map_append stored_append b
      by (rule Cons.IH[OF l])
  qed
qed

lemma web3_excess:
  "excess (cnt [''web'' \<mapsto> 3]) (stored dep (Map.empty, [''web'' \<mapsto> 3])
     (take 1 (calls (snd (oneByOne simClient [''web''] dep [] web3))))) ''web'' = 1"
  "excess (cnt [''web'' \<mapsto> 3]) (stored dep (Map.empty, [''web'' \<mapsto> 3])
     (take 3 (calls (snd (oneByOne simClient [''web''] dep [] web3))))) ''web'' = 0"
  by (simp_all add: run_eval web3_def excess_def stored_def written_def)

text \<open>
  C3. Take a deployment from one release to a different one, and let \<open>N t\<close> be the count
  of type \<open>t\<close> in the old release's formation as \<open>oneByOne\<close> read it. After any number
  \<open>k\<close> of the calls of a run, successful or not, the formations written so far (the old
  release's as read and the new release's empty before the first write) are balanced:
  for every type \<open>t\<close> the new release's count and the old release's count add up to
  \<open>N t\<close> or to \<open>N t + 1\<close>, and at most one type is at \<open>N t + 1\<close>, so never more than one
  replacement unit is in flight.
\<close>

theorem oneByOne_capacity_bound:
  assumes "StreamJobEvents c w (AppID d) 0 = (None, w1)"
    and "GetFormation c w1 (AppID d) (OldReleaseID d) = Inr f"
    and "NewReleaseID d \<noteq> OldReleaseID d"
    and "oneByOne c order d events w = (r, s)"
  shows "balanced (cnt (Processes f)) (stored d (Map.empty, Processes f) (take k (calls s)))"
proof -
  let ?N = "cnt (Processes f)"
  let ?p = "plan d order Map.empty (Processes f)"
  have lev: "level ?N (Map.empty, Processes f)"
    by (simp add: level_def excess_def cnt_def)
  note P = plan_balanced[OF assms(3) lev, of _ order]
  from oneByOne_run[OF assms(1,2,4)] obtain s' where
    run: "typeLoop c d order (entry w1 (Processes f) events) = (r, s')" and
    s: "s = s'\<lparr>world := streamClose c (world s')\<rparr>" by blast
  show ?thesis
  proof (cases r)
    case None
    with typeLoop_ok[of c d order "entry w1 (Processes f) events" s'] run s
    have "calls s = map ok ?p" by simp
    then show ?thesis using P[of k] by (simp add: take_map)
  next
    case (Some e)
    with typeLoop_fail[of c d order "entry w1 (Processes f) events" e s'] run s
    obtain pre x post where cs: "calls s = map ok pre @ [(x, Some e)]" and p: "pre @ x # post = ?p"
      by auto
    have pre: "pre = take (length pre) ?p" using p[symmetric] by simp
    show ?thesis
    proof (cases "k \<le> length pre")
      case True
      then have "take k (calls s) = map ok (take k pre)" by (simp add: cs take_map)
      also have "take k pre = take k ?p" using True p[symmetric] by simp
      finally show ?thesis using P[of k] by simp
    next
      case False
      then have "take k (calls s) = map ok pre @ [(x, Some e)]" by (simp add: cs)
      then have "stored d (Map.empty, Processes f) (take k (calls s)) =
          stored d (Map.empty, Processes f) (map ok pre)"
        by (simp add: stored_append stored_Cons written_failed)
      then show ?thesis using P[of "length pre"] pre by simp
    qed
  qed
qed

theorem oneByOne_capacity_bound_witness:
  "StreamJobEvents simClient web3 (AppID dep) 0 = (None, web3) \<and>
   GetFormation simClient web3 (AppID dep) (OldReleaseID dep) =
     Inr \<lparr>fAppID = ''app'', fReleaseID = ''R1'', Processes = [''web'' \<mapsto> 3]\<rparr> \<and>
   NewReleaseID dep \<noteq> OldReleaseID dep \<and>
   balanced (cnt [''web'' \<mapsto> 3]) (stored dep (Map.empty, [''web'' \<mapsto> 3])
     (take 1 (calls (snd (oneByOne simClient [''web''] dep [] web3))))) \<and>
   excess (cnt [''web'' \<mapsto> 3]) (stored dep (Map.empty, [''web'' \<mapsto> 3])
     (take 1 (calls (snd (oneByOne simClient [''web''] dep [] web3))))) ''web'' = 1 \<and>
   excess (cnt [''web'' \<mapsto> 3]) (stored dep (Map.empty, [''web'' \<mapsto> 3])
     (take 3 (calls (snd (oneByOne simClient [''web''] dep [] web3))))) ''web'' = 0"
proof -
  have n: "NewReleaseID dep \<noteq> OldReleaseID dep" by (simp add: dep_def)
  have a: "oneByOne simClient [''web''] dep [] web3 =
      (fst (oneByOne simClient [''web''] dep [] web3), snd (oneByOne simClient [''web''] dep [] web3))"
    by simp
  from oneByOne_capacity_bound[OF web3_setup n a, of 1]
  show ?thesis using web3_setup n web3_excess by simp
qed

section \<open>Properties of the live tail\<close>

lemmas parse_eval = ParseInt_def ParseUint_def digit_def Let_def

lemma return_clean: "err h = None \<Longrightarrow> return h = (Returned, h)"
  by (simp add: return_def)

lemma tail_waiting_err:
  "tail p b h os = (Waiting, h') \<Longrightarrow> err h = None \<Longrightarrow> err h' = None"
proof (induction p b h os rule: tail.induct)
  case (1 p b h)
  then show ?case by simp
next
  case (2 p b h e os)
  then show ?case by simp
next
  case (3 p b h listenErr os)
  then show ?case by (simp add: return_def split: option.splits)
next
  case (4 p b h os)
  then show ?case by (simp add: return_def split: option.splits)
next
  case (5 p b h os)
  then show ?case by (auto simp: return_def split: option.splits prod.splits)
next
  case (6 p b h extra os)
  then show ?case
    by (auto simp: return_def split: option.splits prod.splits sum.splits if_splits)
qed

lemma tail_append_waiting:
  "tail p b h os = (Waiting, h') \<Longrightarrow>
     \<exists>b'. tail p b h (os @ rest) = tail p b' h' rest"
proof (induction p b h os rule: tail.induct)
  case (1 p b h)
  then show ?case by auto
next
  case (2 p b h e os)
  then show ?case by simp
next
  case (3 p b h listenErr os)
  then show ?case by (simp add: return_def split: option.splits)
next
  case (4 p b h os)
  then show ?case by (simp add: return_def split: option.splits)
next
  case (5 p b h os)
  then show ?case by (auto simp: return_def split: option.splits prod.splits)
next
  case (6 p b h extra os)
  then show ?case
    by (auto simp: return_def split: option.splits prod.splits sum.splits if_splits)
qed

subsection \<open>A notification that is not a number\<close>

lemmas stream_eval = streamDeploymentEvents_def listEvents_def queryEvents_def getEvent_def
  queryEvent_def scanDeploymentEvent_def cleaned_def scannerOf_def selected_def sendKeepAlive_def
  sendDeploymentEvent_def Write_def andThen_def return_def pkg0_def db0_def writer0_def evt_def
  Let_def parse_eval emitted_def

lemma tick_waits:
  "fst (streamDeploymentEvents pkg0 db0 ''d1'' writer0 (Some Connected) [Tick]) = Waiting"
  "body (wr (snd (streamDeploymentEvents pkg0 db0 ''d1'' writer0 (Some Connected) [Tick]))) =
     [KeepAlive, KeepAlive]"
  by (simp_all add: stream_eval)

text \<open>
  C10. Let the handler be in its loop, waiting, after what has happened so far. If the
  next notification carries a text that \<open>strconv.ParseInt\<close> rejects, the handler returns
  at once, whatever would have followed: the response is left as it was before the
  notification, with no further event, no keep-alive and no error page (the deferred
  function sees no error).
\<close>

theorem malformed_notification_ends_stream:
  assumes "ParseInt extra = None"
    and "streamDeploymentEvents p b deploymentID w (Some Connected) os = (Waiting, h)"
  shows "streamDeploymentEvents p b deploymentID w (Some Connected) (os @ Notify extra # rest) =
           (Returned, h)"
proof -
  let ?h0 = "\<lparr>wr = w\<lparr>contentType := ''text/event-stream; charset=utf-8''\<rparr>,
             err = None, currID = 0\<rparr>"
  from assms(2) obtain events where le: "listEvents p b deploymentID 0 = Inr events"
    by (cases "listEvents p b deploymentID 0")
       (auto simp: streamDeploymentEvents_def return_def split: option.splits)
  let ?h1 = "catchUp ?h0 events"
  from assms(2) le have e1: "err ?h1 = None"
    by (auto simp: streamDeploymentEvents_def Let_def return_def split: option.splits if_splits)
  obtain r1 w1 where ka: "sendKeepAlive (wr ?h1) = (r1, w1)" by (cases "sendKeepAlive (wr ?h1)")
  from assms(2) le e1 ka have r1: "r1 = None"
    by (cases r1) (auto simp: streamDeploymentEvents_def Let_def return_def)
  let ?h2 = "?h1\<lparr>wr := w1, err := None\<rparr>"
  from assms(2) le e1 ka r1 have t: "tail p b ?h2 os = (Waiting, h)"
    by (simp add: streamDeploymentEvents_def Let_def)
  have eh: "err h = None" using tail_waiting_err[OF t] by simp
  from tail_append_waiting[OF t, of "Notify extra # rest"] obtain b' where
    "tail p b ?h2 (os @ Notify extra # rest) = tail p b' h (Notify extra # rest)" by blast
  then have "tail p b ?h2 (os @ Notify extra # rest) = (Returned, h)"
    using assms(1) eh by (simp add: return_clean)
  then show ?thesis using le e1 ka r1 by (simp add: streamDeploymentEvents_def Let_def)
qed

theorem malformed_notification_ends_stream_witness:
  "ParseInt ''x5'' = None \<and>
   fst (streamDeploymentEvents pkg0 db0 ''d1'' writer0 (Some Connected) [Tick]) = Waiting \<and>
   fst (streamDeploymentEvents pkg0 db0 ''d1'' writer0 (Some Connected)
     ([Tick] @ Notify ''x5'' # [Appended (evt 5), Notify ''5'', Tick])) = Returned \<and>
   body (wr (snd (streamDeploymentEvents pkg0 db0 ''d1'' writer0 (Some Connected)
     ([Tick] @ Notify ''x5'' # [Appended (evt 5), Notify ''5'', Tick])))) = [KeepAlive, KeepAlive]"
proof -
  let ?run = "streamDeploymentEvents pkg0 db0 ''d1'' writer0 (Some Connected) [Tick]"
  have px: "ParseInt ''x5'' = None" by (simp add: parse_eval)
  have run: "?run = (Waiting, snd ?run)" using tick_waits(1) by (simp add: prod_eq_iff)
  from malformed_notification_ends_stream[OF px run, of "[Appended (evt 5), Notify ''5'', Tick]"]
  show ?thesis using px tick_waits by simp
qed

subsection \<open>Wake-ups above the cursor\<close>

text \<open>
  C4, on the code. The handler starts with no event stored, so \<open>currID\<close> is 0 after the
  catch-up. Event 5 is stored and its wake-up arrives twice: the event is written to the
  response twice. Events 5 and 7 are stored and their wake-ups arrive as 7, then 5: the
  response carries 7, then 5. The loop never assigns \<open>currID\<close>: after event 5 was
  written it is still 0.
\<close>

theorem wakeups_emitted_again:
  "emitted (snd (streamDeploymentEvents pkg0 db0 ''d1'' writer0 (Some Connected)
     [Appended (evt 5), Notify ''5'', Notify ''5''])) = [5, 5] \<and>
   emitted (snd (streamDeploymentEvents pkg0 db0 ''d1'' writer0 (Some Connected)
     [Appended (evt 5), Appended (evt 7), Notify ''7'', Notify ''5''])) = [7, 5] \<and>
   currID (snd (streamDeploymentEvents pkg0 db0 ''d1'' writer0 (Some Connected)
     [Appended (evt 5), Notify ''5''])) = 0"
  by (simp add: stream_eval)

section \<open>Properties of the deployment repository\<close>

subsection \<open>listEvents\<close>


lemma eID_cleaned [simp]: "eID (cleaned p row) = eID row"
  by (simp add: cleaned_def)








subsection \<open>Add\<close>

lemma insert_ok:
  "queryError b = None \<Longrightarrow>
     insertDeployment b x =
       (Inr (now b), b\<lparr>deployments := deployments b @ [x\<lparr>CreatedAt := now b, FinishedAt := None\<rparr>]\<rparr>)"
  by (simp add: insertDeployment_def)

lemmas add_eval = Add_def Let_def insertDeployment_def Enqueue_def repoQueueDown_def depNoID_def
  pkg0_def db0_def

lemma Add_queue_down:
  "Add pkg0 None repoQueueDown (DeploymentPtr depNoID) =
     Some (Some (Error ''queue down''),
           depNoID\<lparr>ID := ''ab12'', OldReleaseID := ''a1'', NewReleaseID := ''b2'', CreatedAt := 1000\<rparr>,
           repoQueueDown\<lparr>repo_db := db0\<lparr>deployments :=
             [depNoID\<lparr>ID := ''ab-12'', CreatedAt := 1000, FinishedAt := None\<rparr>]\<rparr>\<rparr>)"
  by (simp add: add_eval)

text \<open>
  C8. When the database accepts the insert (and \<open>json.Marshal\<close> returns no error), \<open>Add\<close>
  on a \<open>Deployment\<close> returns what \<open>Enqueue\<close> returns. The identifier is the given one or,
  when that is empty, the one \<open>random.UUID()\<close> generated; the row is appended to
  \<open>deployments\<close> with that identifier and the server's time as \<open>created_at\<close>; and the queue
  gains exactly one job, of type \<open>Deployment\<close>, whose argument is the deployment's id,
  unless \<open>Enqueue\<close> fails: then the queue is unchanged and the row is still there.
\<close>

theorem Add_inserts_then_enqueues:
  assumes "queryError (repo_db r) = None"
  shows "\<exists>d' r'.
      Add p None r (DeploymentPtr d0) = Some (enqueueError (repo_q r), d', r') \<and>
      ID d' = CleanUUID p (if ID d0 = '''' then UUID p else ID d0) \<and>
      deployments (repo_db r') =
        deployments (repo_db r) @
          [d0\<lparr>ID := (if ID d0 = '''' then UUID p else ID d0),
              CreatedAt := now (repo_db r), FinishedAt := None\<rparr>] \<and>
      que_jobs (repo_q r') =
        (case enqueueError (repo_q r) of
           None \<Rightarrow> que_jobs (repo_q r) @ [\<lparr>Type = ''Deployment'', Args = DeployID (ID d')\<rparr>]
         | Some e \<Rightarrow> que_jobs (repo_q r))"
  by (cases "enqueueError (repo_q r)")
     (simp_all add: Add_def Let_def insert_ok[OF assms] Enqueue_def)

theorem Add_inserts_then_enqueues_witness:
  "queryError (repo_db repoQueueDown) = None \<and>
   enqueueError (repo_q repoQueueDown) = Some (Error ''queue down'') \<and>
   (\<exists>d' r'. Add pkg0 None repoQueueDown (DeploymentPtr depNoID) =
        Some (Some (Error ''queue down''), d', r') \<and>
      ID d' = ''ab12'' \<and>
      deployments (repo_db r') = [depNoID\<lparr>ID := ''ab-12'', CreatedAt := 1000, FinishedAt := None\<rparr>] \<and>
      que_jobs (repo_q r') = [])"
proof -
  have q: "queryError (repo_db repoQueueDown) = None" by (simp add: repoQueueDown_def db0_def)
  from Add_inserts_then_enqueues[OF q, of pkg0 depNoID]
  show ?thesis by (simp add: repoQueueDown_def db0_def depNoID_def pkg0_def)
qed

text \<open>
  C9. \<open>Add\<close> leaves its argument changed. When the insert succeeds, whatever \<open>Add\<close>
  returns afterwards, also an error of \<open>Enqueue\<close>: \<open>ID\<close> is the cleaned form of the given
  identifier, or of the generated one when the given one was empty, \<open>OldReleaseID\<close> and
  \<open>NewReleaseID\<close> are in their cleaned form, and \<open>CreatedAt\<close> is the server's time. When
  the insert fails, \<open>Add\<close> returns its error and only a generated \<open>ID\<close> has been written.
\<close>

theorem Add_mutates_argument:
  assumes "Add p marshalError r (DeploymentPtr d0) = Some (res, d', r')"
  shows "case queryError (repo_db r) of
           None \<Rightarrow>
             d' = d0\<lparr>ID := CleanUUID p (if ID d0 = '''' then UUID p else ID d0),
                     OldReleaseID := CleanUUID p (OldReleaseID d0),
                     NewReleaseID := CleanUUID p (NewReleaseID d0),
                     CreatedAt := now (repo_db r)\<rparr>
         | Some e \<Rightarrow> res = Some e \<and> d' = d0\<lparr>ID := (if ID d0 = '''' then UUID p else ID d0)\<rparr>"
proof (cases "queryError (repo_db r)")
  case None
  note i = insert_ok[OF None]
  from assms show ?thesis
    by (cases marshalError; cases "enqueueError (repo_q r)")
       (auto simp: None Add_def Let_def i Enqueue_def)
next
  case (Some e)
  with assms have "res = Some e" "d' = (if ID d0 = [] then d0\<lparr>ID := UUID p\<rparr> else d0)"
    by (auto simp: Add_def Let_def insertDeployment_def)
  then show ?thesis by (simp add: Some)
qed

theorem Add_mutates_argument_witness:
  "Add pkg0 None repoQueueDown (DeploymentPtr depNoID) =
     Some (Some (Error ''queue down''),
           depNoID\<lparr>ID := ''ab12'', OldReleaseID := ''a1'', NewReleaseID := ''b2'', CreatedAt := 1000\<rparr>,
           repoQueueDown\<lparr>repo_db := db0\<lparr>deployments :=
             [depNoID\<lparr>ID := ''ab-12'', CreatedAt := 1000, FinishedAt := None\<rparr>]\<rparr>\<rparr>) \<and>
   queryError (repo_db repoQueueDown) = None \<and>
   depNoID\<lparr>ID := ''ab12'', OldReleaseID := ''a1'', NewReleaseID := ''b2'', CreatedAt := 1000\<rparr> =
     depNoID\<lparr>ID := CleanUUID pkg0 (if ID depNoID = [] then UUID pkg0 else ID depNoID),
             OldReleaseID := CleanUUID pkg0 (OldReleaseID depNoID),
             NewReleaseID := CleanUUID pkg0 (NewReleaseID depNoID),
             CreatedAt := now (repo_db repoQueueDown)\<rparr>"
proof -
  have q: "queryError (repo_db repoQueueDown) = None" by (simp add: repoQueueDown_def db0_def)
  from Add_mutates_argument[OF Add_queue_down] q Add_queue_down
  show ?thesis by simp
qed

end
